theory Spec2Isabelle
  imports Main "HOL-Library.Word"
begin

section \<open>Common values\<close>

text \<open>
  A thrown JavaScript exception is a value of type \<open>error\<close>: \<open>Error msg\<close> for
  \<^verbatim>\<open>new Error(msg)\<close> and \<open>TypeError msg\<close> for \<^verbatim>\<open>new TypeError(msg)\<close>. A function
  that can throw returns \<open>error + 'a\<close>, with \<open>Inl\<close> the thrown value. A result
  that can be \<^verbatim>\<open>undefined\<close> is an \<open>option\<close>, with \<open>None\<close> for \<^verbatim>\<open>undefined\<close>. A string
  that the code only compares with literals, puts together or hands on (a path, a
  module name, a message) is the list of its characters.
\<close>

datatype error = Error string | TypeError string

text \<open>
  A JavaScript string is a sequence of 16-bit code units. The strings that the code
  trims or scans character by character are modelled so, as lists of code units
  (\<open>jsstring\<close>); \<open>jsstr\<close> gives the JavaScript string of a literal written in ASCII.
\<close>

type_synonym code_unit = "16 word"

type_synonym jsstring = "code_unit list"

definition jsstr :: "string \<Rightarrow> jsstring" where
  "jsstr s = map of_char s"

abbreviation (input) semicolon :: code_unit where
  "semicolon \<equiv> 0x3B"

abbreviation (input) equals_sign :: code_unit where
  "equals_sign \<equiv> 0x3D"

abbreviation (input) comma :: code_unit where
  "comma \<equiv> 0x2C"

text \<open>
  \<^verbatim>\<open>String.prototype.trim\<close> removes, at both ends, the code units that ECMAScript
  calls WhiteSpace (U+0009, U+000B, U+000C, U+FEFF and the space separators U+0020,
  U+00A0, U+1680, U+2000 to U+200A, U+202F, U+205F, U+3000) and LineTerminator
  (U+000A, U+000D, U+2028, U+2029).
\<close>

definition isWhiteSpace :: "code_unit \<Rightarrow> bool" where
  "isWhiteSpace c =
     (c \<in> set [0x0009, 0x000A, 0x000B, 0x000C, 0x000D, 0x0020, 0x00A0, 0x1680, 0x2000,
                0x2001, 0x2002, 0x2003, 0x2004, 0x2005, 0x2006, 0x2007, 0x2008, 0x2009,
                0x200A, 0x2028, 0x2029, 0x202F, 0x205F, 0x3000, 0xFEFF])"

definition trim :: "jsstring \<Rightarrow> jsstring" where
  "trim s = rev (dropWhile isWhiteSpace (rev (dropWhile isWhiteSpace s)))"

text \<open>
  \<^verbatim>\<open>str.split(sep)\<close> for a separator of one character: the pieces between the
  separators, in order; a string without the separator (the empty string too) gives the
  one-element array holding it.
\<close>

fun split_str :: "'a \<Rightarrow> 'a list \<Rightarrow> 'a list list" where
  "split_str sep [] = [[]]"
| "split_str sep (c # cs) =
     (if c = sep then [] # split_str sep cs
      else (case split_str sep cs of
              [] \<Rightarrow> [[c]]
            | piece # pieces \<Rightarrow> (c # piece) # pieces))"

text \<open>
  \<^verbatim>\<open>pieces.join(sep)\<close> for a separator of one character: the pieces with the
  separator between them.
\<close>

fun join_str :: "'a \<Rightarrow> 'a list list \<Rightarrow> 'a list" where
  "join_str sep [] = []"
| "join_str sep [p] = p"
| "join_str sep (p # q # ps) = p @ sep # join_str sep (q # ps)"

section \<open>The utilities\<close>

subsection \<open>\<^verbatim>\<open>acceptParams\<close>\<close>

text \<open>
  The string methods the tokenizer calls. An index that JavaScript reports as \<^verbatim>\<open>-1\<close>
  is \<open>None\<close>. \<^verbatim>\<open>str.indexOf(c, position)\<close> is the first index from \<open>position\<close> on
  that holds \<open>c\<close>; \<^verbatim>\<open>str.lastIndexOf(c, position)\<close> is the last index up to
  \<open>position\<close> that holds \<open>c\<close>, a negative \<open>position\<close> counting as 0;
  \<^verbatim>\<open>str.slice(start, end)\<close> is called with indices that are not negative, and is
  empty when \<open>end \<le> start\<close>.
\<close>

fun find_first :: "code_unit \<Rightarrow> jsstring \<Rightarrow> nat option" where
  "find_first c [] = None"
| "find_first c (x # xs) = (if x = c then Some 0 else map_option Suc (find_first c xs))"

definition indexOf :: "jsstring \<Rightarrow> code_unit \<Rightarrow> nat \<Rightarrow> nat option" where
  "indexOf str c position = map_option (\<lambda>k. position + k) (find_first c (drop position str))"

definition lastIndexOf :: "jsstring \<Rightarrow> code_unit \<Rightarrow> int \<Rightarrow> nat option" where
  "lastIndexOf str c position =
     (let prefix = take (nat (max 0 position) + 1) str
      in map_option (\<lambda>k. length prefix - 1 - k) (find_first c (rev prefix)))"

definition slice :: "jsstring \<Rightarrow> nat \<Rightarrow> nat \<Rightarrow> jsstring" where
  "slice str start end = take (end - start) (drop start str)"

text \<open>
  The object \<^verbatim>\<open>ret\<close>. \<^verbatim>\<open>quality\<close> is a number: the type \<open>'q\<close> with its \<open>1\<close>, and
  \<^verbatim>\<open>parseFloat\<close> a parameter. \<^verbatim>\<open>params\<close> is the object \<^verbatim>\<open>{}\<close>, seen as the map from
  its own property names to their values.
\<close>

record 'q accept =
  ret_value :: jsstring
  ret_quality :: 'q
  ret_params :: "jsstring \<rightharpoonup> jsstring"

text \<open>
  The assignment \<^verbatim>\<open>ret.params[key] = value\<close> on an object created by \<^verbatim>\<open>{}\<close>. Such an
  object inherits the accessor \<^verbatim>\<open>__proto__\<close> of \<^verbatim>\<open>Object.prototype\<close>, so the
  assignment under the key \<^verbatim>\<open>__proto__\<close> calls that setter, which does nothing for a
  value that is a string: no property is created. Every other key becomes an own
  property.
\<close>

definition set_property ::
  "(jsstring \<rightharpoonup> jsstring) \<Rightarrow> jsstring \<Rightarrow> jsstring \<Rightarrow> (jsstring \<rightharpoonup> jsstring)" where
  "set_property obj key v = (if key = jsstr ''__proto__'' then obj else obj(key \<mapsto> v))"

text \<open>
  One run of the body of \<^verbatim>\<open>while (index < length)\<close>: \<open>None\<close> for \<^verbatim>\<open>break\<close>, else
  the new \<^verbatim>\<open>index\<close> and \<^verbatim>\<open>ret\<close>. The first \<open>Some\<close> is the \<^verbatim>\<open>continue\<close>.
\<close>

definition acceptParams_step ::
  "(jsstring \<Rightarrow> 'q) \<Rightarrow> jsstring \<Rightarrow> nat \<Rightarrow> 'q accept \<Rightarrow> (nat \<times> 'q accept) option" where
  "acceptParams_step parseFloat str index ret =
     (case indexOf str equals_sign index of
        None \<Rightarrow> None
      | Some splitIndex \<Rightarrow>
          let endIndex = (case indexOf str semicolon index of
                            None \<Rightarrow> length str
                          | Some colonIndex \<Rightarrow> colonIndex)
          in if splitIndex > endIndex then
               Some (case lastIndexOf str semicolon (int splitIndex - 1) of
                       None \<Rightarrow> 0
                     | Some j \<Rightarrow> j + 1, ret)
             else
               let key = trim (slice str index splitIndex);
                   v = trim (slice str (splitIndex + 1) endIndex)
               in Some (endIndex + 1,
                        if key = jsstr ''q'' then ret\<lparr>ret_quality := parseFloat v\<rparr>
                        else ret\<lparr>ret_params := set_property (ret_params ret) key v\<rparr>))"

text \<open>
  Facts about the string methods, up to the one that makes the loop terminate: a run
  of the body that does not leave the loop moves \<^verbatim>\<open>index\<close> forward.
\<close>

lemma find_first_eq:
  "find_first c xs = (if c \<in> set xs then Some (length (takeWhile (\<lambda>x. x \<noteq> c) xs)) else None)"
  by (induction xs) auto

lemma indexOf_eq:
  "indexOf str c i =
     (if c \<in> set (drop i str) then Some (i + length (takeWhile (\<lambda>x. x \<noteq> c) (drop i str)))
      else None)"
  by (simp add: indexOf_def find_first_eq)

lemma takeWhile_hit:
  "c \<in> set xs \<Longrightarrow>
     length (takeWhile (\<lambda>x. x \<noteq> c) xs) < length xs \<and> xs ! length (takeWhile (\<lambda>x. x \<noteq> c) xs) = c"
  by (induction xs) auto

lemma indexOf_SomeD:
  assumes "indexOf str c i = Some k"
  shows "i \<le> k" and "k < length str" and "str ! k = c"
    and "k = i + length (takeWhile (\<lambda>x. x \<noteq> c) (drop i str))"
proof -
  from assms have mem: "c \<in> set (drop i str)"
    and k: "k = i + length (takeWhile (\<lambda>x. x \<noteq> c) (drop i str))"
    by (auto simp: indexOf_eq split: if_splits)
  show "k = i + length (takeWhile (\<lambda>x. x \<noteq> c) (drop i str))" by (rule k)
  show "i \<le> k" using k by simp
  from takeWhile_hit[OF mem] have lt: "k - i < length (drop i str)" and hit: "drop i str ! (k - i) = c"
    using k by auto
  from lt show "k < length str" using k by simp
  from hit lt show "str ! k = c" using k by simp
qed

lemma lastIndexOf_le:
  assumes "lastIndexOf str c (int p) = Some j"
  shows "j \<le> p \<and> j < length str \<and> str ! j = c"
proof -
  let ?pre = "take (p + 1) str"
  from assms obtain k where k: "find_first c (rev ?pre) = Some k" and j: "j = length ?pre - 1 - k"
    by (auto simp: lastIndexOf_def)
  from k have mem: "c \<in> set (rev ?pre)" and kk: "k = length (takeWhile (\<lambda>x. x \<noteq> c) (rev ?pre))"
    by (auto simp: find_first_eq split: if_splits)
  have klt: "k < length ?pre" and hit: "rev ?pre ! k = c"
    using takeWhile_hit[OF mem] kk by auto
  have "rev ?pre ! k = ?pre ! j" using klt j by (simp add: rev_nth)
  moreover have "j < length ?pre" using klt j by arith
  ultimately show ?thesis using hit by auto
qed

lemma lastIndexOf_ge:
  assumes "e \<le> p" "e < length str" "str ! e = c"
  shows "\<exists>j. lastIndexOf str c (int p) = Some j \<and> e \<le> j"
proof -
  let ?pre = "take (p + 1) str"
  have len: "e < length ?pre" using assms by simp
  then have pe: "?pre ! e = c" using assms by simp
  then have mem: "c \<in> set (rev ?pre)" using len by (metis nth_mem set_rev)
  define k where "k = length (takeWhile (\<lambda>x. x \<noteq> c) (rev ?pre))"
  have k: "find_first c (rev ?pre) = Some k" using mem by (simp add: find_first_eq k_def)
  have klt: "k < length ?pre" using takeWhile_hit[OF mem] k_def by simp
  have "e \<le> length ?pre - 1 - k"
  proof (rule ccontr)
    assume "\<not> e \<le> length ?pre - 1 - k"
    then have lt: "length ?pre - 1 - e < k" using len klt by arith
    have "length ?pre - 1 - e < length ?pre" using len by arith
    then have "rev ?pre ! (length ?pre - 1 - e) = ?pre ! (length ?pre - Suc (length ?pre - 1 - e))"
      by (rule rev_nth)
    also have "length ?pre - Suc (length ?pre - 1 - e) = e" using len by arith
    finally have "rev ?pre ! (length ?pre - 1 - e) = c" using pe by simp
    moreover have "rev ?pre ! (length ?pre - 1 - e) \<in> set (takeWhile (\<lambda>x. x \<noteq> c) (rev ?pre))"
      using lt unfolding k_def by (metis nth_mem takeWhile_nth)
    ultimately show False by (auto dest: set_takeWhileD)
  qed
  then show ?thesis using k by (simp add: lastIndexOf_def)
qed

lemma step_increases:
  assumes "acceptParams_step pf str index ret = Some (index', ret')"
  shows "index < index'"
proof -
  from assms obtain splitIndex where sp: "indexOf str equals_sign index = Some splitIndex"
    by (cases "indexOf str equals_sign index") (simp_all add: acceptParams_step_def)
  define endIndex where
    "endIndex = (case indexOf str semicolon index of None \<Rightarrow> length str | Some colonIndex \<Rightarrow> colonIndex)"
  have sp_ge: "index \<le> splitIndex" and sp_lt: "splitIndex < length str"
    using indexOf_SomeD(1,2)[OF sp] by simp_all
  have end_ge: "index \<le> endIndex"
  proof (cases "indexOf str semicolon index")
    case None
    then show ?thesis using sp_ge sp_lt by (simp add: endIndex_def)
  next
    case (Some colonIndex)
    then show ?thesis using indexOf_SomeD(1)[OF Some] by (simp add: endIndex_def)
  qed
  show ?thesis
  proof (cases "splitIndex > endIndex")
    case False
    then have "index' = endIndex + 1"
      using assms sp by (simp add: acceptParams_step_def endIndex_def Let_def)
    then show ?thesis using end_ge by simp
  next
    case True
    then have idx: "index' = (case lastIndexOf str semicolon (int splitIndex - 1) of None \<Rightarrow> 0 | Some j \<Rightarrow> j + 1)"
      using assms sp by (simp add: acceptParams_step_def endIndex_def Let_def)
    from True sp_lt have lt: "endIndex < length str" by simp
    then obtain colonIndex where c: "indexOf str semicolon index = Some colonIndex"
      and ce: "endIndex = colonIndex"
      by (cases "indexOf str semicolon index") (simp_all add: endIndex_def)
    have hit: "str ! endIndex = semicolon"
      using indexOf_SomeD(3)[OF c] ce by simp
    have le: "endIndex \<le> splitIndex - 1" using True by simp
    have eq: "int splitIndex - 1 = int (splitIndex - 1)" using True by simp
    obtain j where "lastIndexOf str semicolon (int splitIndex - 1) = Some j" "endIndex \<le> j"
      using lastIndexOf_ge[OF le lt hit] unfolding eq by blast
    then show ?thesis using idx end_ge by simp
  qed
qed

function acceptParams_loop :: "(jsstring \<Rightarrow> 'q) \<Rightarrow> jsstring \<Rightarrow> nat \<Rightarrow> 'q accept \<Rightarrow> 'q accept" where
  "acceptParams_loop parseFloat str index ret =
     (if index < length str then
        (case acceptParams_step parseFloat str index ret of
           None \<Rightarrow> ret
         | Some (index', ret') \<Rightarrow> acceptParams_loop parseFloat str index' ret')
      else ret)"
  by pat_completeness auto
termination
proof (relation "measure (\<lambda>(pf, str, index, ret). length str - index)", goal_cases)
  case 1
  show ?case by simp
next
  case (2 pf str index ret x2 x y)
  then have "index < x" using step_increases[of pf str index ret x y] by simp
  with 2 show ?case by auto
qed

text \<open>
  The number of runs of the loop's body, by the same recursion.
\<close>

function acceptParams_iterations ::
  "(jsstring \<Rightarrow> 'q) \<Rightarrow> jsstring \<Rightarrow> nat \<Rightarrow> 'q accept \<Rightarrow> nat" where
  "acceptParams_iterations parseFloat str index ret =
     (if index < length str then
        (case acceptParams_step parseFloat str index ret of
           None \<Rightarrow> 1
         | Some (index', ret') \<Rightarrow> 1 + acceptParams_iterations parseFloat str index' ret')
      else 0)"
  by pat_completeness auto
termination
proof (relation "measure (\<lambda>(pf, str, index, ret). length str - index)", goal_cases)
  case 1
  show ?case by simp
next
  case (2 pf str index ret x2 x y)
  then have "index < x" using step_increases[of pf str index ret x y] by simp
  with 2 show ?case by auto
qed

text \<open>
  The start of \<^verbatim>\<open>acceptParams\<close>: \<^verbatim>\<open>index\<close> is the place of the first \<^verbatim>\<open>';'\<close>, or
  the length.
\<close>

definition start_index :: "jsstring \<Rightarrow> nat" where
  "start_index str =
     (case indexOf str semicolon 0 of None \<Rightarrow> length str | Some colonIndex \<Rightarrow> colonIndex)"

definition start_ret :: "jsstring \<Rightarrow> ('q::one) accept" where
  "start_ret str =
     \<lparr>ret_value = trim (slice str 0 (start_index str)), ret_quality = 1,
      ret_params = Map.empty\<rparr>"

definition acceptParams :: "(jsstring \<Rightarrow> 'q::one) \<Rightarrow> jsstring \<Rightarrow> 'q accept" where
  "acceptParams parseFloat str =
     acceptParams_loop parseFloat str (start_index str) (start_ret str)"

subsection \<open>ETag generators\<close>

text \<open>
  \<^verbatim>\<open>createETagGenerator(options)\<close> returns \<^verbatim>\<open>generateETag(body, encoding)\<close>, which
  turns a string body into a buffer and hands it to the \<^verbatim>\<open>etag\<close> package. The package
  (\<open>etagOriginal\<close>) and \<^verbatim>\<open>Buffer.from\<close> (\<open>bufferFrom\<close>) are outside the repository and
  are parameters.
\<close>

record etag_options =
  weak :: bool

datatype 'buf body = StringBody string | BufferBody 'buf

type_synonym ('buf, 'enc) etag_fn = "'buf body \<Rightarrow> 'enc \<Rightarrow> string"

definition createETagGenerator ::
  "('buf \<Rightarrow> etag_options \<Rightarrow> string) \<Rightarrow> (string \<Rightarrow> 'enc \<Rightarrow> 'buf) \<Rightarrow> etag_options
     \<Rightarrow> ('buf, 'enc) etag_fn" where
  "createETagGenerator etagOriginal bufferFrom options =
     (\<lambda>body encoding.
        let buf = (case body of StringBody s \<Rightarrow> bufferFrom s encoding | BufferBody b \<Rightarrow> b)
        in etagOriginal buf options)"

definition etag ::
  "('buf \<Rightarrow> etag_options \<Rightarrow> string) \<Rightarrow> (string \<Rightarrow> 'enc \<Rightarrow> 'buf) \<Rightarrow> ('buf, 'enc) etag_fn" where
  "etag etagOriginal bufferFrom = createETagGenerator etagOriginal bufferFrom \<lparr>weak = False\<rparr>"

definition wetag ::
  "('buf \<Rightarrow> etag_options \<Rightarrow> string) \<Rightarrow> (string \<Rightarrow> 'enc \<Rightarrow> 'buf) \<Rightarrow> ('buf, 'enc) etag_fn" where
  "wetag etagOriginal bufferFrom = createETagGenerator etagOriginal bufferFrom \<lparr>weak = True\<rparr>"

text \<open>
  The argument of \<^verbatim>\<open>compileETag\<close> and \<^verbatim>\<open>compileQueryParser\<close> has the type
  \<^verbatim>\<open>boolean | string | Function\<close>.
\<close>

datatype 'f setting = BoolVal bool | StrVal string | FunVal 'f

text \<open>
  \<^verbatim>\<open>compileETag(val)\<close>: a function is returned as it is; the \<^verbatim>\<open>switch\<close> sets
  \<^verbatim>\<open>fn\<close> for \<^verbatim>\<open>true\<close>, \<^verbatim>\<open>'weak'\<close> and \<^verbatim>\<open>'strong'\<close>, leaves it \<^verbatim>\<open>undefined\<close> for
  \<^verbatim>\<open>false\<close>, and throws in the default case.
\<close>

fun compileETag ::
  "('buf \<Rightarrow> etag_options \<Rightarrow> string) \<Rightarrow> (string \<Rightarrow> 'enc \<Rightarrow> 'buf) \<Rightarrow> ('buf, 'enc) etag_fn setting
     \<Rightarrow> error + ('buf, 'enc) etag_fn option" where
  "compileETag eo bf (FunVal f) = Inr (Some f)"
| "compileETag eo bf (BoolVal True) = Inr (Some (wetag eo bf))"
| "compileETag eo bf (BoolVal False) = Inr None"
| "compileETag eo bf (StrVal s) =
     (if s = ''weak'' then Inr (Some (wetag eo bf))
      else if s = ''strong'' then Inr (Some (etag eo bf))
      else Inl (TypeError (''unknown value for etag function: '' @ s)))"

subsection \<open>Query parsers\<close>

text \<open>
  \<^verbatim>\<open>querystring.parse\<close> (\<open>querystring_parse\<close>) and \<^verbatim>\<open>qs.parse\<close> (\<open>qs_parse\<close>) are
  outside the repository and are parameters.
\<close>

record qs_options =
  allowPrototypes :: bool

definition parseExtendedQueryString :: "(string \<Rightarrow> qs_options \<Rightarrow> 'o) \<Rightarrow> string \<Rightarrow> 'o" where
  "parseExtendedQueryString qs_parse str = qs_parse str \<lparr>allowPrototypes = True\<rparr>"

fun compileQueryParser ::
  "(string \<Rightarrow> 'o) \<Rightarrow> (string \<Rightarrow> qs_options \<Rightarrow> 'o) \<Rightarrow> (string \<Rightarrow> 'o) setting
     \<Rightarrow> error + (string \<Rightarrow> 'o) option" where
  "compileQueryParser querystring_parse qs_parse (FunVal f) = Inr (Some f)"
| "compileQueryParser querystring_parse qs_parse (BoolVal True) = Inr (Some querystring_parse)"
| "compileQueryParser querystring_parse qs_parse (BoolVal False) = Inr None"
| "compileQueryParser querystring_parse qs_parse (StrVal s) =
     (if s = ''simple'' then Inr (Some querystring_parse)
      else if s = ''extended'' then Inr (Some (parseExtendedQueryString qs_parse))
      else Inl (TypeError (''unknown value for query parser function: '' @ s)))"

subsection \<open>Proxy trust\<close>

text \<open>
  The argument of \<^verbatim>\<open>compileTrust\<close> has the type
  \<^verbatim>\<open>boolean | string | number | string[] | Function\<close>. A trust function takes an
  address and a hop index. Numbers are a type \<open>'n\<close> with the order \<open><\<close> of
  JavaScript's comparison. \<^verbatim>\<open>proxyaddr.compile\<close> (\<open>proxyaddr_compile\<close>) is outside the
  repository and is a parameter; it can throw.
\<close>

type_synonym 'n trust_fn = "jsstring \<Rightarrow> 'n \<Rightarrow> bool"

datatype 'n trust_setting =
  TrustFun "'n trust_fn"
| TrustBool bool
| TrustNum 'n
| TrustStr jsstring
| TrustArr "jsstring list"

fun compileTrust ::
  "(jsstring list \<Rightarrow> error + 'n trust_fn) \<Rightarrow> ('n::ord) trust_setting \<Rightarrow> error + 'n trust_fn" where
  "compileTrust proxyaddr_compile (TrustFun f) = Inr f"
| "compileTrust proxyaddr_compile (TrustBool True) = Inr (\<lambda>a i. True)"
| "compileTrust proxyaddr_compile (TrustNum n) = Inr (\<lambda>a i. i < n)"
| "compileTrust proxyaddr_compile (TrustStr s) =
     proxyaddr_compile (map trim (split_str comma s))"
| "compileTrust proxyaddr_compile (TrustBool False) = proxyaddr_compile []"
| "compileTrust proxyaddr_compile (TrustArr xs) = proxyaddr_compile xs"

section \<open>The view\<close>

subsection \<open>What the view uses from outside the repository\<close>

text \<open>
  The functions of \<^verbatim>\<open>node:path\<close> are parameters, collected in a record. \<^verbatim>\<open>join\<close> and
  \<^verbatim>\<open>resolve\<close> take their segments as a list; \<^verbatim>\<open>basename\<close> is called with one argument
  (\<open>path_basename\<close>) and with a suffix to remove (\<open>path_basename_ext\<close>).
\<close>

record pathlib =
  path_extname :: "string \<Rightarrow> string"
  path_basename :: "string \<Rightarrow> string"
  path_basename_ext :: "string \<Rightarrow> string \<Rightarrow> string"
  path_dirname :: "string \<Rightarrow> string"
  path_join :: "string list \<Rightarrow> string"
  path_resolve :: "string list \<Rightarrow> string"

text \<open>
  \<^verbatim>\<open>fs.statSync(path)\<close> throws or returns the stats of the file; \<^verbatim>\<open>require(mod)\<close>
  throws or returns the module, of which the view reads \<^verbatim>\<open>__express\<close>
  (\<open>express_export\<close>): a function, or anything else.
\<close>

record stats =
  isFile :: bool

datatype 'e export = NotAFunction | Function 'e

record 'e module =
  express_export :: "'e export"

text \<open>
  What the view does to the outside, in order: the modules it requires and the
  paths it stats.
\<close>

datatype effect = Require string | Stat string

subsection \<open>Options and view\<close>

text \<open>
  The options as the type of the parameter has them, with \<^verbatim>\<open>engines\<close> and
  \<^verbatim>\<open>root\<close> present. \<^verbatim>\<open>root\<close> is one directory or an array of directories
  (\<^verbatim>\<open>[].concat(this.root)\<close> makes an array of either). \<^verbatim>\<open>defaultEngine\<close> may be left
  out (\<open>None\<close>); \<^verbatim>\<open>engines\<close> maps an extension to an engine. Options with less in
  them come further down.
\<close>

datatype roots = OneRoot string | ManyRoots "string list"

record 'e options =
  defaultEngine :: "string option"
  engines :: "string \<rightharpoonup> 'e"
  root :: roots

record 'e view =
  this_defaultEngine :: "string option"
  this_ext :: string
  this_name :: string
  this_root :: "roots option"
  this_engine :: "'e option"
  this_path :: "string option"

text \<open>
  A string or \<^verbatim>\<open>undefined\<close> in a condition: \<^verbatim>\<open>undefined\<close> and the empty string are
  falsy.
\<close>

definition falsy :: "string option \<Rightarrow> bool" where
  "falsy s = (case s of None \<Rightarrow> True | Some t \<Rightarrow> t = [])"

subsection \<open>\<^verbatim>\<open>tryStat\<close>, \<^verbatim>\<open>View.resolve\<close>, \<^verbatim>\<open>View.lookup\<close>\<close>

definition tryStat ::
  "(string \<Rightarrow> error + stats) \<Rightarrow> string \<Rightarrow> effect list \<Rightarrow> effect list \<times> stats option" where
  "tryStat statSync path log =
     (log @ [Stat path], case statSync path of Inl e \<Rightarrow> None | Inr st \<Rightarrow> Some st)"

text \<open>\<^verbatim>\<open>stat && stat.isFile()\<close>\<close>

definition stat_isFile :: "stats option \<Rightarrow> bool" where
  "stat_isFile stat = (case stat of None \<Rightarrow> False | Some st \<Rightarrow> isFile st)"

definition View_resolve ::
  "pathlib \<Rightarrow> (string \<Rightarrow> error + stats) \<Rightarrow> string \<Rightarrow> string \<Rightarrow> string \<Rightarrow> effect list
     \<Rightarrow> effect list \<times> string option" where
  "View_resolve P statSync ext dir file log =
     (let path = path_join P [dir, file];
          (log1, stat) = tryStat statSync path log
      in if stat_isFile stat then (log1, Some path)
         else
           let path2 = path_join P [dir, path_basename_ext P file ext, ''index'' @ ext];
               (log2, stat2) = tryStat statSync path2 log1
           in if stat_isFile stat2 then (log2, Some path2)
              else (log2, None))"

fun concat_root :: "roots \<Rightarrow> string list" where
  "concat_root (OneRoot r) = [r]"
| "concat_root (ManyRoots rs) = rs"

text \<open>
  The loop of \<^verbatim>\<open>lookup\<close>, \<^verbatim>\<open>for (i = 0; i < roots.length && !path; i++)\<close>, over the
  roots from \<open>i\<close> on.
\<close>

fun lookup_loop ::
  "pathlib \<Rightarrow> (string \<Rightarrow> error + stats) \<Rightarrow> string \<Rightarrow> string \<Rightarrow> string list \<Rightarrow> effect list
     \<Rightarrow> string option \<Rightarrow> effect list \<times> string option" where
  "lookup_loop P statSync ext name [] log path = (log, path)"
| "lookup_loop P statSync ext name (r # rs) log path =
     (if \<not> falsy path then (log, path)
      else
        let loc = path_resolve P [r, name];
            dir = path_dirname P loc;
            file = path_basename P loc;
            (log', path') = View_resolve P statSync ext dir file log
        in lookup_loop P statSync ext name rs log' path')"

definition View_lookup ::
  "pathlib \<Rightarrow> (string \<Rightarrow> error + stats) \<Rightarrow> string \<Rightarrow> roots \<Rightarrow> string \<Rightarrow> effect list
     \<Rightarrow> effect list \<times> string option" where
  "View_lookup P statSync ext rt name log =
     lookup_loop P statSync ext name (concat_root rt) log None"

subsection \<open>The constructor\<close>

text \<open>
  The extension taken from the default engine,
  \<^verbatim>\<open>this.defaultEngine?.[0] !== '.' ? '.' + this.defaultEngine : this.defaultEngine\<close>.
  The constructor reaches it with a non-empty default engine only; the other cases
  are what JavaScript computes there.
\<close>

definition default_ext :: "string option \<Rightarrow> string" where
  "default_ext d =
     (case d of
        None \<Rightarrow> ''.undefined''
      | Some [] \<Rightarrow> ''.''
      | Some (c # cs) \<Rightarrow> if c \<noteq> CHR ''.'' then CHR ''.'' # c # cs else c # cs)"

text \<open>
  The block that loads the engine: when \<^verbatim>\<open>opts.engines[this.ext]\<close> is missing, the
  module \<^verbatim>\<open>mod = this.ext.slice(1)\<close> (\<open>modname\<close>) is required and its \<^verbatim>\<open>__express\<close> stored in the
  caller's \<^verbatim>\<open>engines\<close>. An entry of \<^verbatim>\<open>engines\<close> is an engine, a function, so
  \<^verbatim>\<open>!opts.engines[this.ext]\<close> holds exactly when there is no entry. The result is the
  options as the block leaves them, the effects, and the error thrown, if any.
\<close>

definition load_engine ::
  "(string \<Rightarrow> error + 'e module) \<Rightarrow> string \<Rightarrow> 'e options
     \<Rightarrow> 'e options \<times> effect list \<times> error option" where
  "load_engine require ext opts =
     (case engines opts ext of
        Some e \<Rightarrow> (opts, [], None)
      | None \<Rightarrow>
          let modname = drop 1 ext in
          (case require modname of
             Inl err \<Rightarrow> (opts, [Require modname], Some err)
           | Inr m \<Rightarrow>
               (case express_export m of
                  NotAFunction \<Rightarrow>
                    (opts, [Require modname],
                     Some (Error (''Module '' @ [CHR 0x22] @ modname @ [CHR 0x22] @
                                  '' does not provide a view engine.'')))
                | Function fn \<Rightarrow>
                    (opts\<lparr>engines := (engines opts)(ext \<mapsto> fn)\<rparr>, [Require modname], None))))"

text \<open>
  \<^verbatim>\<open>new View(name, options)\<close> on options of that type: the options as the constructor
  leaves them, the effects, and the error thrown or the view.
\<close>

definition View_new ::
  "pathlib \<Rightarrow> (string \<Rightarrow> error + 'e module) \<Rightarrow> (string \<Rightarrow> error + stats) \<Rightarrow> string \<Rightarrow> 'e options
     \<Rightarrow> 'e options \<times> effect list \<times> (error + 'e view)" where
  "View_new P require statSync name opts =
     (let ext0 = path_extname P name in
      if ext0 = [] \<and> falsy (defaultEngine opts) then
        (opts, [],
         Inl (Error ''No default engine was specified and no extension was provided.''))
      else
        let ext = (if ext0 = [] then default_ext (defaultEngine opts) else ext0);
            fileName = (if ext0 = [] then name @ ext else name)
        in (case load_engine require ext opts of
              (opts', log, Some err) \<Rightarrow> (opts', log, Inl err)
            | (opts', log, None) \<Rightarrow>
                let engine = engines opts' ext;
                    (log', path) = View_lookup P statSync ext (root opts) fileName log
                in (opts', log',
                    Inr \<lparr>this_defaultEngine = defaultEngine opts, this_ext = ext,
                         this_name = name, this_root = Some (root opts), this_engine = engine,
                         this_path = path\<rparr>)))"

subsection \<open>The constructor on options as a caller may pass them\<close>

text \<open>
  The body of the constructor starts with \<^verbatim>\<open>const opts = options || {}\<close>: at run time
  the options may be absent, and so may each of their properties. \<open>no_options\<close> is
  the object \<^verbatim>\<open>{}\<close>.
\<close>

record 'e given_options =
  given_defaultEngine :: "string option"
  given_engines :: "(string \<rightharpoonup> 'e) option"
  given_root :: "roots option"

definition no_options :: "'e given_options" where
  "no_options = \<lparr>given_defaultEngine = None, given_engines = None, given_root = None\<rparr>"

definition options_or_empty :: "'e given_options option \<Rightarrow> 'e given_options" where
  "options_or_empty options = (case options of None \<Rightarrow> no_options | Some given \<Rightarrow> given)"

text \<open>
  The block that loads the engine, on the object \<^verbatim>\<open>opts.engines\<close>.
\<close>

definition load_engine_into ::
  "(string \<Rightarrow> error + 'e module) \<Rightarrow> string \<Rightarrow> (string \<rightharpoonup> 'e)
     \<Rightarrow> (string \<rightharpoonup> 'e) \<times> effect list \<times> error option" where
  "load_engine_into require ext es =
     (case es ext of
        Some e \<Rightarrow> (es, [], None)
      | None \<Rightarrow>
          let modname = drop 1 ext in
          (case require modname of
             Inl err \<Rightarrow> (es, [Require modname], Some err)
           | Inr m \<Rightarrow>
               (case express_export m of
                  NotAFunction \<Rightarrow>
                    (es, [Require modname],
                     Some (Error (''Module '' @ [CHR 0x22] @ modname @ [CHR 0x22] @
                                  '' does not provide a view engine.'')))
                | Function fn \<Rightarrow> (es(ext \<mapsto> fn), [Require modname], None))))"

text \<open>
  \<^verbatim>\<open>new View(name, options)\<close> on any options. Reading \<^verbatim>\<open>opts.engines[this.ext]\<close>
  when \<^verbatim>\<open>opts.engines\<close> is \<^verbatim>\<open>undefined\<close> throws a \<^verbatim>\<open>TypeError\<close>. When \<^verbatim>\<open>opts.root\<close> is
  \<^verbatim>\<open>undefined\<close>, \<^verbatim>\<open>[].concat(this.root)\<close> is the array \<^verbatim>\<open>[undefined]\<close>, and the one run of
  the loop of \<^verbatim>\<open>lookup\<close> calls \<^verbatim>\<open>resolve(undefined, name)\<close>: what \<^verbatim>\<open>path.resolve\<close> does
  then is the parameter \<open>resolve_undefined\<close> (Node throws a \<^verbatim>\<open>TypeError\<close>, unless the
  name is absolute). The caller's options are returned as the constructor leaves them.
\<close>

definition View_constructor ::
  "pathlib \<Rightarrow> (string \<Rightarrow> error + string) \<Rightarrow> (string \<Rightarrow> error + 'e module)
     \<Rightarrow> (string \<Rightarrow> error + stats) \<Rightarrow> string \<Rightarrow> 'e given_options option
     \<Rightarrow> 'e given_options option \<times> effect list \<times> (error + 'e view)" where
  "View_constructor P resolve_undefined require statSync name options =
     (let opts = options_or_empty options;
          ext0 = path_extname P name in
      if ext0 = [] \<and> falsy (given_defaultEngine opts) then
        (options, [],
         Inl (Error ''No default engine was specified and no extension was provided.''))
      else
        let ext = (if ext0 = [] then default_ext (given_defaultEngine opts) else ext0);
            fileName = (if ext0 = [] then name @ ext else name)
        in (case given_engines opts of
              None \<Rightarrow>
                (options, [],
                 Inl (TypeError (''Cannot read properties of undefined (reading '' @ [CHR 0x27]
                                 @ ext @ [CHR 0x27] @ '')'')))
            | Some es \<Rightarrow>
                (case load_engine_into require ext es of
                   (es', log, Some err) \<Rightarrow> (options, log, Inl err)
                 | (es', log, None) \<Rightarrow>
                     let options' = map_option (\<lambda>given. given\<lparr>given_engines := Some es'\<rparr>) options;
                         this = \<lparr>this_defaultEngine = given_defaultEngine opts, this_ext = ext,
                                 this_name = name, this_root = given_root opts,
                                 this_engine = es' ext, this_path = None\<rparr>
                     in (case given_root opts of
                           Some rt \<Rightarrow>
                             let (log', path) = View_lookup P statSync ext rt fileName log
                             in (options', log', Inr (this\<lparr>this_path := path\<rparr>))
                         | None \<Rightarrow>
                             (case resolve_undefined fileName of
                                Inl err \<Rightarrow> (options', log, Inl err)
                              | Inr loc \<Rightarrow>
                                  let (log', path) =
                                        View_resolve P statSync ext (path_dirname P loc)
                                          (path_basename P loc) log
                                  in (options', log', Inr (this\<lparr>this_path := path\<rparr>)))))))"

subsection \<open>\<^verbatim>\<open>View.render\<close>\<close>

text \<open>
  An engine is called with the path, the options and the callback \<^verbatim>\<open>onRender\<close>. Of what
  it does, the view sees the calls of \<^verbatim>\<open>onRender\<close> it makes before it returns, each
  with its list of arguments, and whether it returns or throws. Calls of \<^verbatim>\<open>onRender\<close>
  after that are steps of their own.
\<close>

record 'v engine_run =
  sync_calls :: "'v list list"
  thrown :: "error option"

type_synonym ('o, 'v) engine = "string option \<Rightarrow> 'o \<Rightarrow> 'v engine_run"

text \<open>
  The state of one call of \<^verbatim>\<open>render\<close>: the variable \<^verbatim>\<open>sync\<close>, the \<^verbatim>\<open>renderTick\<close>
  closures handed to \<^verbatim>\<open>process.nextTick\<close> and not yet run, each with its \<^verbatim>\<open>args\<close>, and
  the calls of the user's callback made so far, each with its arguments.
\<close>

record 'v render_state =
  sync :: bool
  nextTicks :: "'v list list"
  callback_calls :: "'v list list"

text \<open>
  The copy of the arguments: \<^verbatim>\<open>args = new Array(arguments.length)\<close>, then
  \<^verbatim>\<open>for (i = 0; i < arguments.length; i++) args[i] = arguments[i]\<close>. The slots of the
  new array read as \<^verbatim>\<open>undefined\<close> (\<open>undef\<close>).
\<close>

function copy_loop :: "'v list \<Rightarrow> nat \<Rightarrow> 'v list \<Rightarrow> 'v list" where
  "copy_loop arguments i args =
     (if i < length arguments then copy_loop arguments (i + 1) (args[i := arguments ! i])
      else args)"
  by pat_completeness auto
termination
  by (relation "measure (\<lambda>(arguments, i, args). length arguments - i)") auto

definition copy_arguments :: "'v \<Rightarrow> 'v list \<Rightarrow> 'v list" where
  "copy_arguments undef arguments =
     copy_loop arguments 0 (replicate (length arguments) undef)"

definition onRender :: "'v \<Rightarrow> 'v render_state \<Rightarrow> 'v list \<Rightarrow> 'v render_state" where
  "onRender undef st arguments =
     (if \<not> sync st then st\<lparr>callback_calls := callback_calls st @ [arguments]\<rparr>
      else
        let args = copy_arguments undef arguments
        in st\<lparr>nextTicks := nextTicks st @ [args]\<rparr>)"

text \<open>
  \<^verbatim>\<open>render(options, callback)\<close>: the state when \<^verbatim>\<open>render\<close> is left, and the error when
  it is left by an exception (of the engine, or because \<^verbatim>\<open>this.engine\<close> is not a
  function). \<^verbatim>\<open>sync = false\<close> is reached when the engine returns.
\<close>

definition View_render ::
  "'v \<Rightarrow> (('o, 'v) engine) view \<Rightarrow> 'o \<Rightarrow> 'v render_state \<times> error option" where
  "View_render undef v options =
     (let st0 = \<lparr>sync = True, nextTicks = [], callback_calls = []\<rparr> in
      case this_engine v of
        None \<Rightarrow> (st0, Some (TypeError ''this.engine is not a function''))
      | Some engine \<Rightarrow>
          let run = engine (this_path v) options;
              st1 = foldl (onRender undef) st0 (sync_calls run)
          in (case thrown run of
                Some e \<Rightarrow> (st1, Some e)
              | None \<Rightarrow> (st1\<lparr>sync := False\<rparr>, None)))"

text \<open>
  Node runs the queue of \<^verbatim>\<open>process.nextTick\<close> once the running code has returned:
  each \<^verbatim>\<open>renderTick\<close> calls the user's callback with its \<^verbatim>\<open>args\<close>.
\<close>

definition run_nextTicks :: "'v render_state \<Rightarrow> 'v render_state" where
  "run_nextTicks st =
     st\<lparr>callback_calls := callback_calls st @ nextTicks st, nextTicks := []\<rparr>"

section \<open>A sample environment\<close>

text \<open>
  Concrete stand-ins for the packages and the system the code calls, on which the
  theorems below are run.
\<close>

definition sample_etagOriginal :: "string \<Rightarrow> etag_options \<Rightarrow> string" where
  "sample_etagOriginal buf options = (if weak options then ''W/'' @ buf else buf)"

definition sample_bufferFrom :: "string \<Rightarrow> unit \<Rightarrow> string" where
  "sample_bufferFrom s encoding = s"

definition sample_querystring_parse :: "string \<Rightarrow> string list" where
  "sample_querystring_parse str = split_str CHR ''&'' str"

definition sample_qs_parse :: "string \<Rightarrow> qs_options \<Rightarrow> string list" where
  "sample_qs_parse str options = (if allowPrototypes options then split_str CHR ''&'' str else [])"

definition sample_proxyaddr_compile :: "jsstring list \<Rightarrow> error + int trust_fn" where
  "sample_proxyaddr_compile addrs =
     (if [] \<in> set addrs then Inl (TypeError ''invalid IP address: '')
      else Inr (\<lambda>a i. a \<in> set addrs))"

text \<open>
  A stand-in for \<^verbatim>\<open>node:path\<close> on paths with \<^verbatim>\<open>/\<close>, a file system with three files
  and three directories, and two engine modules: \<^verbatim>\<open>html\<close> exports a view engine,
  \<^verbatim>\<open>json\<close> does not, and no other module is installed.
\<close>

definition sample_extname :: "string \<Rightarrow> string" where
  "sample_extname p =
     (if CHR ''.'' \<in> set p then CHR ''.'' # rev (takeWhile (\<lambda>c. c \<noteq> CHR ''.'') (rev p)) else [])"

definition sample_basename :: "string \<Rightarrow> string" where
  "sample_basename p = rev (takeWhile (\<lambda>c. c \<noteq> CHR ''/'') (rev p))"

definition sample_basename_ext :: "string \<Rightarrow> string \<Rightarrow> string" where
  "sample_basename_ext p ext =
     (let b = sample_basename p; n = length b - length ext
      in if length ext < length b \<and> drop n b = ext then take n b else b)"

definition sample_dirname :: "string \<Rightarrow> string" where
  "sample_dirname p = rev (drop 1 (dropWhile (\<lambda>c. c \<noteq> CHR ''/'') (rev p)))"

definition sample_join :: "string list \<Rightarrow> string" where
  "sample_join segs =
     (let s = join_str CHR ''/'' (filter (\<lambda>seg. seg \<noteq> []) segs) in if s = [] then ''.'' else s)"

definition sample_path :: pathlib where
  "sample_path =
     \<lparr>path_extname = sample_extname, path_basename = sample_basename,
      path_basename_ext = sample_basename_ext, path_dirname = sample_dirname,
      path_join = sample_join, path_resolve = sample_join\<rparr>"

definition sample_statSync :: "string \<Rightarrow> error + stats" where
  "sample_statSync p =
     (if p \<in> set [''/views/about.html'', ''/views/user/index.html'', ''/shared/footer.html'']
      then Inr \<lparr>isFile = True\<rparr>
      else if p \<in> set [''/views'', ''/views/user'', ''/shared''] then Inr \<lparr>isFile = False\<rparr>
      else Inl (Error (''ENOENT: no such file or directory, stat '' @ p)))"

datatype sample_engine = Html_engine | Cached_engine

definition sample_require :: "string \<Rightarrow> error + sample_engine module" where
  "sample_require modname =
     (if modname = ''html'' then Inr \<lparr>express_export = Function Html_engine\<rparr>
      else if modname = ''json'' then Inr \<lparr>express_export = NotAFunction\<rparr>
      else Inl (Error (''Cannot find module '' @ modname)))"

definition sample_options :: "sample_engine options" where
  "sample_options =
     \<lparr>defaultEngine = Some ''html'', engines = [''.ejs'' \<mapsto> Cached_engine],
      root = OneRoot ''/views''\<rparr>"



text \<open>
  An engine that calls back before it returns, a view bound to it, a media type with a
  no-break space before its parameters, and a \<^verbatim>\<open>parseFloat\<close> that knows two
  numerals.
\<close>

definition sample_sync_engine :: "(unit, string) engine" where
  "sample_sync_engine path options =
     \<lparr>sync_calls = [[''null'', ''<h1>about</h1>'']], thrown = None\<rparr>"

definition sample_view :: "((unit, string) engine) view" where
  "sample_view =
     \<lparr>this_defaultEngine = Some ''html'', this_ext = ''.html'', this_name = ''about'',
      this_root = Some (OneRoot ''/views''), this_engine = Some sample_sync_engine,
      this_path = Some ''/views/about.html''\<rparr>"

definition sample_accept :: jsstring where
  "sample_accept = jsstr ''text/html'' @ [0x00A0] @ jsstr ''; charset=utf-8 ;q=0''"

definition sample_parseFloat :: "jsstring \<Rightarrow> int" where
  "sample_parseFloat s = (if s = jsstr ''0'' then 0 else if s = jsstr ''1'' then 1 else 2)"

lemmas sample_defs =
  sample_path_def sample_extname_def sample_basename_def sample_basename_ext_def
  sample_dirname_def sample_join_def sample_statSync_def sample_require_def sample_options_def

section \<open>The utilities: properties\<close>

subsection \<open>Settings of \<^verbatim>\<open>compileETag\<close> and \<^verbatim>\<open>compileQueryParser\<close>\<close>

text \<open>
  The values each function recognizes, and a result that is a thrown \<^verbatim>\<open>TypeError\<close>.
\<close>

definition is_function :: "'f setting \<Rightarrow> bool" where
  "is_function v = (case v of FunVal f \<Rightarrow> True | _ \<Rightarrow> False)"

definition recognized_etag :: "'f setting \<Rightarrow> bool" where
  "recognized_etag v =
     (case v of BoolVal b \<Rightarrow> True | StrVal s \<Rightarrow> s = ''weak'' \<or> s = ''strong'' | FunVal f \<Rightarrow> False)"

definition recognized_query :: "'f setting \<Rightarrow> bool" where
  "recognized_query v =
     (case v of BoolVal b \<Rightarrow> True | StrVal s \<Rightarrow> s = ''simple'' \<or> s = ''extended'' | FunVal f \<Rightarrow> False)"

definition throws_TypeError :: "error + 'a \<Rightarrow> bool" where
  "throws_TypeError r = (case r of Inl (TypeError msg) \<Rightarrow> True | _ \<Rightarrow> False)"

lemma compileETag_throws:
  "throws_TypeError (compileETag eo bf v) = (\<not> is_function v \<and> \<not> recognized_etag v)"
  by (cases "(eo, bf, v)" rule: compileETag.cases)
     (auto simp: throws_TypeError_def is_function_def recognized_etag_def)

lemma compileETag_isl:
  "isl (compileETag eo bf v) = throws_TypeError (compileETag eo bf v)"
  by (cases "(eo, bf, v)" rule: compileETag.cases) (auto simp: throws_TypeError_def)

lemma compileQueryParser_throws:
  "throws_TypeError (compileQueryParser qp qs v) = (\<not> is_function v \<and> \<not> recognized_query v)"
  by (cases "(qp, qs, v)" rule: compileQueryParser.cases)
     (auto simp: throws_TypeError_def is_function_def recognized_query_def)

lemma compileQueryParser_isl:
  "isl (compileQueryParser qp qs v) = throws_TypeError (compileQueryParser qp qs v)"
  by (cases "(qp, qs, v)" rule: compileQueryParser.cases) (auto simp: throws_TypeError_def)

text \<open>
  C6, as amended. Each of \<^verbatim>\<open>compileETag\<close> and \<^verbatim>\<open>compileQueryParser\<close> throws exactly
  when its argument is not a function and not one of its recognized values, and what
  it throws is a \<^verbatim>\<open>TypeError\<close>; a function is returned as it is; \<^verbatim>\<open>true\<close> and
  \<^verbatim>\<open>'weak'\<close> give the weak ETag generator, \<^verbatim>\<open>'strong'\<close> the strong one; \<^verbatim>\<open>true\<close> and
  \<^verbatim>\<open>'simple'\<close> give \<^verbatim>\<open>querystring.parse\<close>, \<^verbatim>\<open>'extended'\<close> the extended parser; and
  for the recognized value \<^verbatim>\<open>false\<close> nothing is returned (\<^verbatim>\<open>undefined\<close>).
\<close>

theorem compile_setting_amended:
  "isl (compileETag eo bf v) = (\<not> is_function v \<and> \<not> recognized_etag v)
   \<and> throws_TypeError (compileETag eo bf v) = isl (compileETag eo bf v)
   \<and> isl (compileQueryParser qp qs w) = (\<not> is_function w \<and> \<not> recognized_query w)
   \<and> throws_TypeError (compileQueryParser qp qs w) = isl (compileQueryParser qp qs w)
   \<and> compileETag eo bf (FunVal f) = Inr (Some f)
   \<and> compileQueryParser qp qs (FunVal g) = Inr (Some g)
   \<and> compileETag eo bf (BoolVal True) = Inr (Some (wetag eo bf))
   \<and> compileETag eo bf (StrVal ''weak'') = Inr (Some (wetag eo bf))
   \<and> compileETag eo bf (StrVal ''strong'') = Inr (Some (etag eo bf))
   \<and> compileQueryParser qp qs (BoolVal True) = Inr (Some qp)
   \<and> compileQueryParser qp qs (StrVal ''simple'') = Inr (Some qp)
   \<and> compileQueryParser qp qs (StrVal ''extended'') = Inr (Some (parseExtendedQueryString qs))
   \<and> compileETag eo bf (BoolVal False) = Inr None
   \<and> compileQueryParser qp qs (BoolVal False) = Inr None"
  by (simp add: compileETag_isl compileETag_throws compileQueryParser_isl
        compileQueryParser_throws)

theorem compile_setting_amended_witness:
  "isl (compileETag sample_etagOriginal sample_bufferFrom (StrVal ''medium''))
   \<and> throws_TypeError (compileETag sample_etagOriginal sample_bufferFrom (StrVal ''medium''))
   \<and> \<not> isl (compileQueryParser sample_querystring_parse sample_qs_parse (StrVal ''extended''))
   \<and> compileETag sample_etagOriginal sample_bufferFrom (StrVal ''strong'')
       = Inr (Some (etag sample_etagOriginal sample_bufferFrom))"
  using compile_setting_amended [of sample_etagOriginal sample_bufferFrom "StrVal ''medium''"
      sample_querystring_parse sample_qs_parse "StrVal ''extended''"]
  by (simp add: is_function_def recognized_etag_def recognized_query_def)

text \<open>
  C6, as stated, fails at \<^verbatim>\<open>false\<close>: it is a recognized value of both functions, and
  neither returns an ETag generator or a parser for it.
\<close>

theorem compile_false_counterexample:
  "recognized_etag (BoolVal False :: (string, unit) etag_fn setting)
   \<and> \<not> (\<exists>g. compileETag sample_etagOriginal sample_bufferFrom (BoolVal False) = Inr (Some g))
   \<and> recognized_query (BoolVal False :: (string \<Rightarrow> string list) setting)
   \<and> \<not> (\<exists>p. compileQueryParser sample_querystring_parse sample_qs_parse (BoolVal False)
              = Inr (Some p))"
  by (simp add: recognized_etag_def recognized_query_def)

text \<open>
  C9. Called with \<^verbatim>\<open>false\<close>, \<^verbatim>\<open>compileETag\<close> and \<^verbatim>\<open>compileQueryParser\<close> return
  \<^verbatim>\<open>undefined\<close> and do not throw; every value that is neither a function nor one of
  the recognized values is rejected with a \<^verbatim>\<open>TypeError\<close>.
\<close>

theorem compile_false_disables:
  "compileETag eo bf (BoolVal False) = Inr None
   \<and> compileQueryParser qp qs (BoolVal False) = Inr None
   \<and> (\<not> is_function v \<and> \<not> recognized_etag v \<longrightarrow> throws_TypeError (compileETag eo bf v))
   \<and> (\<not> is_function w \<and> \<not> recognized_query w
        \<longrightarrow> throws_TypeError (compileQueryParser qp qs w))"
  by (simp add: compileETag_throws compileQueryParser_throws)

theorem compile_false_disables_witness:
  "compileETag sample_etagOriginal sample_bufferFrom (BoolVal False) = Inr None
   \<and> compileQueryParser sample_querystring_parse sample_qs_parse (BoolVal False) = Inr None
   \<and> throws_TypeError (compileETag sample_etagOriginal sample_bufferFrom (StrVal ''no''))
   \<and> throws_TypeError
        (compileQueryParser sample_querystring_parse sample_qs_parse (StrVal ''weak''))"
  using compile_false_disables [of sample_etagOriginal sample_bufferFrom sample_querystring_parse
      sample_qs_parse "StrVal ''no''" "StrVal ''weak''"]
  by (simp add: is_function_def recognized_etag_def recognized_query_def)

subsection \<open>\<^verbatim>\<open>compileTrust\<close>\<close>

text \<open>
  What splitting on a separator means: joining the pieces gives the string back, and
  no piece holds the separator.
\<close>

lemma split_str_not_Nil: "split_str sep s \<noteq> []"
  by (induction s) (auto split: list.splits)

lemma join_split_str: "join_str sep (split_str sep s) = s"
proof (induction s)
  case Nil
  then show ?case by simp
next
  case (Cons c cs)
  obtain piece pieces where sp: "split_str sep cs = piece # pieces"
    using split_str_not_Nil[of sep cs] by (cases "split_str sep cs") auto
  with Cons show ?case by (cases pieces) auto
qed

lemma split_str_no_sep: "list_all (\<lambda>piece. sep \<notin> set piece) (split_str sep s)"
  by (induction s) (auto split: list.splits)

text \<open>
  What trimming means: \<open>t\<close> is \<open>s\<close> trimmed when \<open>s\<close> is \<open>t\<close> between the white space
  \<open>s\<close> starts with and the white space it ends with, and \<open>t\<close> neither starts nor ends
  with white space.
\<close>

definition trimmed :: "jsstring \<Rightarrow> jsstring \<Rightarrow> bool" where
  "trimmed s t =
     (s = takeWhile isWhiteSpace s @ t
            @ rev (takeWhile isWhiteSpace (rev (dropWhile isWhiteSpace s)))
      \<and> (t = [] \<or> (\<not> isWhiteSpace (hd t) \<and> \<not> isWhiteSpace (last t))))"

lemma trim_ends:
  "trim s = [] \<or> (\<not> isWhiteSpace (hd (trim s)) \<and> \<not> isWhiteSpace (last (trim s)))"
proof (cases "trim s = []")
  case True
  then show ?thesis by simp
next
  case False
  let ?d = "dropWhile isWhiteSpace s"
  let ?t = "dropWhile isWhiteSpace (rev ?d)"
  from False have t: "?t \<noteq> []" by (simp add: trim_def)
  then have h: "\<not> isWhiteSpace (hd ?t)" by (rule hd_dropWhile)
  have d: "?d \<noteq> []"
  proof
    assume e: "?d = []"
    have "?t = []" unfolding e by simp
    with t show False by simp
  qed
  then have "\<not> isWhiteSpace (hd ?d)" by (rule hd_dropWhile)
  then have l: "\<not> isWhiteSpace (last (rev ?d))" using d by (simp add: last_rev)
  have "rev ?d = takeWhile isWhiteSpace (rev ?d) @ ?t" by simp
  then have "last (rev ?d) = last ?t" using t by (metis last_appendR)
  with l have l': "\<not> isWhiteSpace (last ?t)" by simp
  have "hd (trim s) = last ?t" and "last (trim s) = hd ?t"
    using t by (simp_all add: trim_def hd_rev last_rev)
  with h l' show ?thesis by simp
qed

lemma trim_trimmed: "trimmed s (trim s)"
proof -
  let ?d = "dropWhile isWhiteSpace s"
  have "rev (dropWhile isWhiteSpace (rev ?d)) @ rev (takeWhile isWhiteSpace (rev ?d))
          = rev (takeWhile isWhiteSpace (rev ?d) @ dropWhile isWhiteSpace (rev ?d))"
    by (simp only: rev_append)
  also have "\<dots> = rev (rev ?d)" by (simp only: takeWhile_dropWhile_id)
  also have "\<dots> = ?d" by (simp only: rev_rev_ident)
  finally have "?d = trim s @ rev (takeWhile isWhiteSpace (rev ?d))"
    by (simp only: trim_def)
  moreover have "s = takeWhile isWhiteSpace s @ ?d" by simp
  ultimately have "s = takeWhile isWhiteSpace s @ trim s
                         @ rev (takeWhile isWhiteSpace (rev ?d))"
    by simp
  then show ?thesis using trim_ends[of s] unfolding trimmed_def by blast
qed

text \<open>
  C8. \<^verbatim>\<open>compileTrust\<close> returns a function argument unchanged; \<^verbatim>\<open>true\<close> gives a
  predicate that is true of every address and index; a number \<open>n\<close> gives a predicate
  that is true exactly when the hop index \<open>i\<close> satisfies \<open>i < n\<close>; a string is split
  on commas and each entry trimmed, and the entries are what \<^verbatim>\<open>proxyaddr.compile\<close>
  receives.
\<close>

theorem compileTrust_cases:
  "compileTrust pc (TrustFun f) = Inr f
   \<and> (\<exists>p. compileTrust pc (TrustBool True) = Inr p \<and> (\<forall>a i. p a i))
   \<and> (\<exists>p. compileTrust pc (TrustNum n) = Inr p \<and> (\<forall>a i. p a i = (i < n)))
   \<and> (\<exists>entries. compileTrust pc (TrustStr s) = pc entries
         \<and> entries = map trim (split_str comma s)
         \<and> list_all2 trimmed (split_str comma s) entries)
   \<and> join_str comma (split_str comma s) = s
   \<and> list_all (\<lambda>entry. comma \<notin> set entry) (split_str comma s)"
  by (simp add: join_split_str split_str_no_sep list_all2_map2 list_all2_same trim_trimmed)

theorem compileTrust_cases_witness:
  "compileTrust sample_proxyaddr_compile (TrustFun (\<lambda>a i. i = 0)) = Inr (\<lambda>a i. i = 0)
   \<and> (\<exists>p. compileTrust sample_proxyaddr_compile (TrustNum 2) = Inr p
          \<and> p (jsstr ''10.0.0.1'') 1 \<and> \<not> p (jsstr ''10.0.0.1'') 2)
   \<and> compileTrust sample_proxyaddr_compile
        (TrustStr (jsstr ''10.0.0.1,'' @ [0x00A0] @ jsstr ''10.0.0.2 '' @ [0x3000]))
       = sample_proxyaddr_compile [jsstr ''10.0.0.1'', jsstr ''10.0.0.2'']
   \<and> split_str comma (jsstr ''10.0.0.1,'' @ [0x00A0] @ jsstr ''10.0.0.2 '' @ [0x3000])
       = [jsstr ''10.0.0.1'', [0x00A0] @ jsstr ''10.0.0.2 '' @ [0x3000]]"
  using compileTrust_cases [of sample_proxyaddr_compile "\<lambda>a i. i = 0" 2
      "jsstr ''10.0.0.1,'' @ [0x00A0] @ jsstr ''10.0.0.2 '' @ [0x3000]"]
  by (auto simp: jsstr_def trim_def isWhiteSpace_def)

subsection \<open>\<^verbatim>\<open>acceptParams\<close>\<close>

text \<open>
  The key=value pairs of a text: its pieces between \<^verbatim>\<open>';'\<close> that hold an \<^verbatim>\<open>'='\<close>,
  each read as the trimmed key before the first \<^verbatim>\<open>'='\<close> and the trimmed value after
  it. The pairs of a string are those of its pieces after the first \<^verbatim>\<open>';'\<close>.
  \<open>collect\<close> is what the loop does with one pair.
\<close>

definition pair_of :: "jsstring \<Rightarrow> jsstring \<times> jsstring" where
  "pair_of seg =
     (trim (takeWhile (\<lambda>c. c \<noteq> equals_sign) seg),
      trim (drop 1 (dropWhile (\<lambda>c. c \<noteq> equals_sign) seg)))"

definition pairs_in :: "jsstring \<Rightarrow> (jsstring \<times> jsstring) list" where
  "pairs_in text =
     map pair_of (filter (\<lambda>seg. equals_sign \<in> set seg) (split_str semicolon text))"

definition collect :: "(jsstring \<Rightarrow> 'q) \<Rightarrow> 'q accept \<Rightarrow> jsstring \<times> jsstring \<Rightarrow> 'q accept" where
  "collect pf ret kv =
     (if fst kv = jsstr ''q'' then ret\<lparr>ret_quality := pf (snd kv)\<rparr>
      else ret\<lparr>ret_params := set_property (ret_params ret) (fst kv) (snd kv)\<rparr>)"

definition key_value_pairs :: "jsstring \<Rightarrow> (jsstring \<times> jsstring) list" where
  "key_value_pairs str =
     map pair_of (filter (\<lambda>seg. equals_sign \<in> set seg) (tl (split_str semicolon str)))"

lemma split_str_append:
  "split_str c (a @ c # b) = split_str c a @ split_str c b"
proof (induction a)
  case Nil
  then show ?case by simp
next
  case (Cons x a)
  obtain p ps where "split_str c a = p # ps"
    using split_str_not_Nil[of c a] by (cases "split_str c a") auto
  with Cons show ?case by simp
qed

lemma split_str_no_sep_single: "c \<notin> set a \<Longrightarrow> split_str c a = [a]"
  by (induction a) auto

lemma split_str_pieces_subset: "seg \<in> set (split_str c a) \<Longrightarrow> set seg \<subseteq> set a"
proof (induction a arbitrary: seg)
  case Nil
  then show ?case by simp
next
  case (Cons x a)
  obtain p ps where sp: "split_str c a = p # ps"
    using split_str_not_Nil[of c a] by (cases "split_str c a") auto
  show ?case
  proof (cases "x = c")
    case True
    with Cons show ?thesis by auto
  next
    case False
    with Cons.prems sp have "seg = x # p \<or> seg \<in> set ps" by simp
    then show ?thesis
    proof
      assume "seg = x # p"
      moreover have "set p \<subseteq> set a" using Cons.IH[of p] sp by simp
      ultimately show ?thesis by auto
    next
      assume "seg \<in> set ps"
      then have "set seg \<subseteq> set a" using Cons.IH[of seg] sp by simp
      then show ?thesis by auto
    qed
  qed
qed

lemma pairs_in_none: "equals_sign \<notin> set a \<Longrightarrow> pairs_in a = []"
  using split_str_pieces_subset[of _ "semicolon" a]
  by (auto simp: pairs_in_def filter_empty_conv)

lemma pairs_in_skip:
  "equals_sign \<notin> set a \<Longrightarrow> pairs_in (a @ semicolon # b) = pairs_in b"
  using pairs_in_none[of a] by (simp add: pairs_in_def split_str_append)

lemma pairs_in_segment:
  assumes "semicolon \<notin> set seg" "equals_sign \<in> set seg"
  shows "pairs_in (seg @ semicolon # b) = pair_of seg # pairs_in b"
    and "pairs_in seg = [pair_of seg]"
  using assms by (simp_all add: pairs_in_def split_str_append split_str_no_sep_single)

lemma pairs_in_Nil: "pairs_in [] = []"
  by (simp add: pairs_in_def)

text \<open>
  The body of the loop, read on the text from \<^verbatim>\<open>index\<close> on: it leaves the loop when
  no \<^verbatim>\<open>'='\<close> is left, skips pieces without \<^verbatim>\<open>'='\<close>, and collects the pair of the
  piece at \<^verbatim>\<open>index\<close> otherwise.
\<close>

lemma step_break:
  "equals_sign \<notin> set (drop i str) \<Longrightarrow> acceptParams_step pf str i ret = None"
  by (simp add: acceptParams_step_def indexOf_eq)

lemma endIndex_eq:
  assumes "i \<le> length str"
  shows "(case indexOf str semicolon i of None \<Rightarrow> length str | Some colonIndex \<Rightarrow> colonIndex)
           = i + length (takeWhile (\<lambda>c. c \<noteq> semicolon) (drop i str))"
proof (cases "semicolon \<in> set (drop i str)")
  case True
  then show ?thesis by (simp add: indexOf_eq)
next
  case False
  then have "\<forall>x\<in>set (drop i str). x \<noteq> semicolon" by auto
  then have "takeWhile (\<lambda>c. c \<noteq> semicolon) (drop i str) = drop i str" by simp
  then have len: "length (takeWhile (\<lambda>c. c \<noteq> semicolon) (drop i str)) = length str - i"
    by (metis length_drop)
  show ?thesis using False assms by (simp add: indexOf_eq len)
qed

lemma step_pair:
  fixes str :: jsstring
  defines "seg \<equiv> \<lambda>i. takeWhile (\<lambda>c. c \<noteq> semicolon) (drop i str)"
  assumes eq: "equals_sign \<in> set (seg i)"
  shows "acceptParams_step pf str i ret =
           Some (i + length (seg i) + 1, collect pf ret (pair_of (seg i)))"
proof -
  let ?r = "drop i str"
  let ?k = "length (takeWhile (\<lambda>c. c \<noteq> equals_sign) ?r)"
  let ?e = "length (seg i)"
  have r: "?r = seg i @ dropWhile (\<lambda>c. c \<noteq> semicolon) ?r"
    unfolding seg_def by simp
  have mem: "equals_sign \<in> set ?r" using eq by (auto simp: seg_def dest: set_takeWhileD)
  then have "?r \<noteq> []" by auto
  then have ile: "i \<le> length str" by simp
  have tw: "takeWhile (\<lambda>c. c \<noteq> equals_sign) ?r = takeWhile (\<lambda>c. c \<noteq> equals_sign) (seg i)"
    by (subst r) (use eq in simp)
  have klt: "?k < ?e"
    using takeWhile_hit[OF eq] by (simp add: tw)
  have sp: "indexOf str equals_sign i = Some (i + ?k)" using mem by (simp add: indexOf_eq)
  have en: "(case indexOf str semicolon i of None \<Rightarrow> length str | Some colonIndex \<Rightarrow> colonIndex)
              = i + ?e"
    using endIndex_eq[OF ile] by (simp add: seg_def)
  have segtake: "seg i = take ?e ?r" unfolding seg_def by (rule takeWhile_eq_take)
  have key: "slice str i (i + ?k) = takeWhile (\<lambda>c. c \<noteq> equals_sign) (seg i)"
  proof -
    have "slice str i (i + ?k) = take ?k ?r" by (simp add: slice_def)
    also have "\<dots> = takeWhile (\<lambda>c. c \<noteq> equals_sign) ?r" by (rule takeWhile_eq_take[symmetric])
    finally show ?thesis by (simp add: tw)
  qed
  have val: "slice str (i + ?k + 1) (i + ?e) = drop 1 (dropWhile (\<lambda>c. c \<noteq> equals_sign) (seg i))"
  proof -
    have "slice str (i + ?k + 1) (i + ?e) = take (?e - (?k + 1)) (drop (?k + 1) ?r)"
      by (simp add: slice_def add.commute)
    also have "\<dots> = drop (?k + 1) (take ?e ?r)" by (simp add: drop_take)
    also have "\<dots> = drop (?k + 1) (seg i)" using segtake by simp
    also have "\<dots> = drop 1 (drop ?k (seg i))" by simp
    also have "drop ?k (seg i) = dropWhile (\<lambda>c. c \<noteq> equals_sign) (seg i)"
      using dropWhile_eq_drop[of "\<lambda>c. c \<noteq> equals_sign" "seg i"] by (simp add: tw)
    finally show ?thesis .
  qed
  have val': "slice str (Suc (i + ?k)) (i + ?e) = drop 1 (dropWhile (\<lambda>c. c \<noteq> equals_sign) (seg i))"
    using val by simp
  have "acceptParams_step pf str i ret =
          Some (i + ?e + 1,
                if trim (slice str i (i + ?k)) = jsstr ''q''
                then ret\<lparr>ret_quality := pf (trim (slice str (Suc (i + ?k)) (i + ?e)))\<rparr>
                else ret\<lparr>ret_params := set_property (ret_params ret)
                       (trim (slice str i (i + ?k))) (trim (slice str (Suc (i + ?k)) (i + ?e)))\<rparr>)"
    using klt by (simp add: acceptParams_step_def sp en Let_def)
  then show ?thesis
    unfolding key val' by (simp add: collect_def pair_of_def)
qed

lemma step_skip:
  assumes mem: "equals_sign \<in> set (drop i str)"
    and noeq: "equals_sign \<notin> set (takeWhile (\<lambda>c. c \<noteq> semicolon) (drop i str))"
  shows "\<exists>j a. acceptParams_step pf str i ret = Some (j, ret)
           \<and> drop i str = a @ semicolon # drop j str \<and> equals_sign \<notin> set a"
proof -
  let ?r = "drop i str"
  let ?k = "length (takeWhile (\<lambda>c. c \<noteq> equals_sign) ?r)"
  let ?e = "length (takeWhile (\<lambda>c. c \<noteq> semicolon) ?r)"
  from mem have "?r \<noteq> []" by auto
  then have ilt: "i < length str" by simp
  have k: "?k < length ?r" "?r ! ?k = equals_sign" using takeWhile_hit[OF mem] by auto
  have colon: "semicolon \<in> set ?r"
  proof (rule ccontr)
    assume "semicolon \<notin> set ?r"
    then have "\<forall>x\<in>set ?r. x \<noteq> semicolon" by auto
    then have "takeWhile (\<lambda>c. c \<noteq> semicolon) ?r = ?r" by simp
    with noeq mem show False by simp
  qed
  have e: "?e < length ?r" "?r ! ?e = semicolon" using takeWhile_hit[OF colon] by auto
  have elt: "?e < ?k"
  proof (rule ccontr)
    assume "\<not> ?e < ?k"
    moreover have "?k \<noteq> ?e" using k(2) e(2) by auto
    ultimately have lt: "?k < ?e" by simp
    then have "takeWhile (\<lambda>c. c \<noteq> semicolon) ?r ! ?k = ?r ! ?k" by (rule takeWhile_nth)
    then have "equals_sign \<in> set (takeWhile (\<lambda>c. c \<noteq> semicolon) ?r)"
      using lt k(2) by (metis nth_mem)
    with noeq show False by simp
  qed
  have sp: "indexOf str equals_sign i = Some (i + ?k)" using mem by (simp add: indexOf_eq)
  have en: "(case indexOf str semicolon i of None \<Rightarrow> length str | Some colonIndex \<Rightarrow> colonIndex)
              = i + ?e"
    using endIndex_eq[of i str] ilt by simp
  have hit: "str ! (i + ?e) = semicolon" using e ilt by simp
  have le: "i + ?e \<le> i + ?k - 1" using elt by simp
  have lt: "i + ?e < length str" using e(1) by simp
  have eqint: "int (i + ?k) - 1 = int (i + ?k - 1)" using elt by simp
  obtain J where J: "lastIndexOf str semicolon (int (i + ?k) - 1) = Some J" and Jge: "i + ?e \<le> J"
    using lastIndexOf_ge[OF le lt hit] unfolding eqint by blast
  have Jle: "J \<le> i + ?k - 1" and Jlt: "J < length str" and Jhit: "str ! J = semicolon"
    using lastIndexOf_le[of str "semicolon" "i + ?k - 1" J] J unfolding eqint by auto
  have step: "acceptParams_step pf str i ret = Some (J + 1, ret)"
    using elt J by (simp add: acceptParams_step_def sp en Let_def)
  let ?n = "J - i"
  have n: "?n < length ?r" using Jlt Jge by simp
  have "?r = take ?n ?r @ ?r ! ?n # drop (Suc ?n) ?r" using n by (rule id_take_nth_drop)
  moreover have "?r ! ?n = semicolon" using Jhit Jge n by simp
  moreover have "drop (Suc ?n) ?r = drop (J + 1) str" using Jge by simp
  ultimately have dec: "?r = take ?n ?r @ semicolon # drop (J + 1) str" by simp
  have "set (take ?n ?r) \<subseteq> set (take ?k ?r)"
    using Jle elt by (intro set_take_subset_set_take) simp
  also have "take ?k ?r = takeWhile (\<lambda>c. c \<noteq> equals_sign) ?r" by (rule takeWhile_eq_take[symmetric])
  finally have "equals_sign \<notin> set (take ?n ?r)" by (auto dest: set_takeWhileD)
  with step dec show ?thesis by blast
qed

lemma loop_unfold:
  "acceptParams_loop pf str i ret =
     (if i < length str then
        (case acceptParams_step pf str i ret of
           None \<Rightarrow> ret
         | Some (i', ret') \<Rightarrow> acceptParams_loop pf str i' ret')
      else ret)"
  by (rule acceptParams_loop.simps)

lemma acceptParams_loop_pairs:
  "acceptParams_loop pf str i ret = foldl (collect pf) ret (pairs_in (drop i str))"
proof (induction pf str i ret rule: acceptParams_loop.induct)
  case (1 pf str i ret)
  let ?r = "drop i str"
  let ?seg = "takeWhile (\<lambda>c. c \<noteq> semicolon) ?r"
  show ?case
  proof (cases "i < length str")
    case False
    then show ?thesis by (subst loop_unfold) (simp add: pairs_in_Nil)
  next
    case True
    show ?thesis
    proof (cases "equals_sign \<in> set ?r")
      case False
      then show ?thesis
        using True by (subst loop_unfold) (simp add: step_break pairs_in_none)
    next
      case mem: True
      show ?thesis
      proof (cases "equals_sign \<in> set ?seg")
        case False
        from step_skip[OF mem False, of pf ret] obtain j a where
          st: "acceptParams_step pf str i ret = Some (j, ret)"
          and dec: "?r = a @ semicolon # drop j str" and a: "equals_sign \<notin> set a"
          by blast
        have "acceptParams_loop pf str i ret = acceptParams_loop pf str j ret"
          using True st by (subst loop_unfold) simp
        also have "\<dots> = foldl (collect pf) ret (pairs_in (drop j str))"
          using "1.IH"[OF True st] by simp
        also have "pairs_in (drop j str) = pairs_in ?r"
          using pairs_in_skip[OF a, of "drop j str"] dec by simp
        finally show ?thesis .
      next
        case eq: True
        let ?j = "i + length ?seg + 1"
        let ?ret = "collect pf ret (pair_of ?seg)"
        have st: "acceptParams_step pf str i ret = Some (?j, ?ret)"
          using step_pair[OF eq] .
        have nosep: "semicolon \<notin> set ?seg" by (auto dest: set_takeWhileD)
        have loop: "acceptParams_loop pf str i ret = acceptParams_loop pf str ?j ?ret"
          using True st by (subst loop_unfold) simp
        have ih: "acceptParams_loop pf str ?j ?ret = foldl (collect pf) ?ret (pairs_in (drop ?j str))"
          using "1.IH"[OF True st] by simp
        have rest: "drop ?j str = drop 1 (dropWhile (\<lambda>c. c \<noteq> semicolon) ?r)"
          by (simp add: dropWhile_eq_drop add.commute)
        have "pairs_in ?r = pair_of ?seg # pairs_in (drop ?j str)"
        proof (cases "dropWhile (\<lambda>c. c \<noteq> semicolon) ?r")
          case Nil
          then have "?r = ?seg" by (metis append_Nil2 takeWhile_dropWhile_id)
          then have "pairs_in ?r = [pair_of ?seg]"
            using pairs_in_segment(2)[OF nosep eq] by simp
          moreover have "drop ?j str = []" unfolding rest Nil by simp
          ultimately show ?thesis by (simp only: pairs_in_Nil)
        next
          case (Cons y ys)
          then have y: "y = semicolon" using hd_dropWhile[of "\<lambda>c. c \<noteq> semicolon" ?r] by auto
          have "?r = ?seg @ semicolon # ys"
            using Cons y by (metis takeWhile_dropWhile_id)
          then have "pairs_in ?r = pair_of ?seg # pairs_in ys"
            using pairs_in_segment(1)[OF nosep eq, of ys] by simp
          moreover have "drop ?j str = ys" unfolding rest Cons by simp
          ultimately show ?thesis by (simp only:)
        qed
        then show ?thesis using loop ih by simp
      qed
    qed
  qed
qed

lemma split_str_tl:
  "tl (split_str c s) =
     (case dropWhile (\<lambda>x. x \<noteq> c) s of [] \<Rightarrow> [] | y # rest \<Rightarrow> split_str c rest)"
proof (cases "dropWhile (\<lambda>x. x \<noteq> c) s")
  case Nil
  then have "c \<notin> set s" by auto
  then have "tl (split_str c s) = []" by (simp add: split_str_no_sep_single)
  then show ?thesis by (simp only: Nil list.case)
next
  case (Cons y rest)
  then have y: "y = c" using hd_dropWhile[of "\<lambda>x. x \<noteq> c" s] by auto
  have s: "s = takeWhile (\<lambda>x. x \<noteq> c) s @ c # rest"
    using Cons y by (metis takeWhile_dropWhile_id)
  have "c \<notin> set (takeWhile (\<lambda>x. x \<noteq> c) s)" by (auto dest: set_takeWhileD)
  then have "split_str c s = takeWhile (\<lambda>x. x \<noteq> c) s # split_str c rest"
    using split_str_append[of c "takeWhile (\<lambda>x. x \<noteq> c) s" rest] s
    by (simp add: split_str_no_sep_single)
  then show ?thesis using Cons by simp
qed

lemma key_value_pairs_eq:
  "key_value_pairs str = pairs_in (drop (start_index str) str)"
proof -
  have si: "start_index str = length (takeWhile (\<lambda>c. c \<noteq> semicolon) str)"
    using endIndex_eq[of 0 str] by (simp add: start_index_def)
  then have d: "drop (start_index str) str = dropWhile (\<lambda>c. c \<noteq> semicolon) str"
    by (simp add: dropWhile_eq_drop)
  show ?thesis
  proof (cases "dropWhile (\<lambda>c. c \<noteq> semicolon) str")
    case Nil
    show ?thesis
      unfolding d key_value_pairs_def split_str_tl Nil by (simp add: pairs_in_Nil)
  next
    case (Cons y rest)
    then have y: "y = semicolon" using hd_dropWhile[of "\<lambda>c. c \<noteq> semicolon" str] by auto
    have "pairs_in (y # rest) = pairs_in rest"
      using pairs_in_skip[of "[]" rest] y by simp
    then show ?thesis
      unfolding d key_value_pairs_def split_str_tl Cons by (simp add: pairs_in_def)
  qed
qed

lemma start_value: "ret_value (start_ret str) = trim (takeWhile (\<lambda>c. c \<noteq> semicolon) str)"
proof -
  have "start_index str = length (takeWhile (\<lambda>c. c \<noteq> semicolon) str)"
    using endIndex_eq[of 0 str] by (simp add: start_index_def)
  then have "slice str 0 (start_index str) = takeWhile (\<lambda>c. c \<noteq> semicolon) str"
    using takeWhile_eq_take[of "\<lambda>c. c \<noteq> semicolon" str] by (simp add: slice_def)
  then show ?thesis by (simp add: start_ret_def)
qed

lemma foldl_collect:
  "ret_value (foldl (collect pf) ret pairs) = ret_value ret
   \<and> ret_quality (foldl (collect pf) ret pairs) =
       (case filter (\<lambda>kv. fst kv = jsstr ''q'') pairs of
          [] \<Rightarrow> ret_quality ret
        | q # qs \<Rightarrow> pf (snd (last (q # qs))))
   \<and> ret_params (foldl (collect pf) ret pairs) =
       ret_params ret ++
         map_of (rev (filter (\<lambda>kv. fst kv \<noteq> jsstr ''q'' \<and> fst kv \<noteq> jsstr ''__proto__'') pairs))"
proof (induction pairs rule: rev_induct)
  case Nil
  then show ?case by simp
next
  case (snoc kv pairs)
  obtain k v where kv: "kv = (k, v)" by (cases kv)
  show ?case
  proof (cases "k = jsstr ''q''")
    case True
    with snoc kv show ?thesis
      by (simp add: collect_def split: list.splits)
  next
    case False
    with snoc kv show ?thesis
      by (auto simp: collect_def set_property_def split: list.splits)
  qed
qed

lemma iterations_bound:
  "acceptParams_iterations pf str i ret \<le> length str - i"
proof (induction pf str i ret rule: acceptParams_iterations.induct)
  case (1 pf str i ret)
  show ?case
  proof (cases "i < length str")
    case False
    then show ?thesis by (subst acceptParams_iterations.simps) simp
  next
    case True
    show ?thesis
    proof (cases "acceptParams_step pf str i ret")
      case None
      then show ?thesis using True by (subst acceptParams_iterations.simps) simp
    next
      case (Some a)
      obtain i' ret' where a: "a = (i', ret')" by (cases a)
      have lt: "i < i'" using step_increases[of pf str i ret i' ret'] Some a by simp
      have "acceptParams_iterations pf str i' ret' \<le> length str - i'"
        using "1.IH"[OF True Some a[symmetric]] .
      then show ?thesis using True Some a lt by (subst acceptParams_iterations.simps) simp
    qed
  qed
qed

text \<open>
  C7, as amended. \<^verbatim>\<open>acceptParams\<close> terminates on every string: a run of the loop's
  body that does not leave the loop moves the index forward, so the body runs at most
  once for each character from the first \<^verbatim>\<open>';'\<close> on; the value is the trimmed text before
  the first \<^verbatim>\<open>';'\<close>; the quality is 1 unless there is a pair with the key \<^verbatim>\<open>q\<close>, and
  then \<^verbatim>\<open>parseFloat\<close> of the value of the last such pair; and \<^verbatim>\<open>params\<close> holds every
  other pair whose key is not \<^verbatim>\<open>__proto__\<close>, a later pair replacing an earlier one with
  the same key.
\<close>

theorem acceptParams_tokenizer:
  "(\<forall>index ret index' ret'.
      acceptParams_step pf str index ret = Some (index', ret') \<longrightarrow> index < index')
   \<and> acceptParams_iterations pf str (start_index str) (start_ret str)
        \<le> length str - start_index str
   \<and> ret_value (acceptParams pf str) = trim (takeWhile (\<lambda>c. c \<noteq> semicolon) str)
   \<and> trimmed (takeWhile (\<lambda>c. c \<noteq> semicolon) str) (ret_value (acceptParams pf str))
   \<and> (\<forall>seg. trimmed (takeWhile (\<lambda>c. c \<noteq> equals_sign) seg) (fst (pair_of seg))
            \<and> trimmed (drop 1 (dropWhile (\<lambda>c. c \<noteq> equals_sign) seg)) (snd (pair_of seg)))
   \<and> ret_quality (acceptParams pf str) =
        (case filter (\<lambda>kv. fst kv = jsstr ''q'') (key_value_pairs str) of
           [] \<Rightarrow> 1
         | q # qs \<Rightarrow> pf (snd (last (q # qs))))
   \<and> ret_params (acceptParams pf str) =
        map_of (rev (filter (\<lambda>kv. fst kv \<noteq> jsstr ''q'' \<and> fst kv \<noteq> jsstr ''__proto__'')
                           (key_value_pairs str)))"
proof -
  have a: "acceptParams pf str = foldl (collect pf) (start_ret str) (key_value_pairs str)"
    by (simp only: acceptParams_def acceptParams_loop_pairs key_value_pairs_eq)
  note f = foldl_collect[of pf "start_ret str" "key_value_pairs str"]
  show ?thesis
  proof (intro conjI allI impI)
    fix index ret index' ret'
    assume "acceptParams_step pf str index ret = Some (index', ret')"
    then show "index < index'" by (rule step_increases)
  next
    show "acceptParams_iterations pf str (start_index str) (start_ret str)
            \<le> length str - start_index str"
      by (rule iterations_bound)
  next
    show v: "ret_value (acceptParams pf str) = trim (takeWhile (\<lambda>c. c \<noteq> semicolon) str)"
      unfolding a using f by (simp only: start_value)
    show "trimmed (takeWhile (\<lambda>c. c \<noteq> semicolon) str) (ret_value (acceptParams pf str))"
      unfolding v by (rule trim_trimmed)
  next
    fix seg
    show "trimmed (takeWhile (\<lambda>c. c \<noteq> equals_sign) seg) (fst (pair_of seg))"
      by (simp add: pair_of_def trim_trimmed)
    show "trimmed (drop 1 (dropWhile (\<lambda>c. c \<noteq> equals_sign) seg)) (snd (pair_of seg))"
      by (simp add: pair_of_def trim_trimmed)
  next
    have "ret_quality (start_ret str :: 'a accept) = 1" by (simp add: start_ret_def)
    then show "ret_quality (acceptParams pf str) =
            (case filter (\<lambda>kv. fst kv = jsstr ''q'') (key_value_pairs str) of
               [] \<Rightarrow> 1
             | q # qs \<Rightarrow> pf (snd (last (q # qs))))"
      unfolding a using f by (simp only:)
  next
    have "ret_params (start_ret str :: 'a accept) = Map.empty" by (simp add: start_ret_def)
    then show "ret_params (acceptParams pf str) =
            map_of (rev (filter (\<lambda>kv. fst kv \<noteq> jsstr ''q'' \<and> fst kv \<noteq> jsstr ''__proto__'')
                               (key_value_pairs str)))"
      unfolding a using f by (simp only: empty_map_add)
  qed
qed

lemma sample_pairs:
  "key_value_pairs sample_accept = [(jsstr ''charset'', jsstr ''utf-8''), (jsstr ''q'', jsstr ''0'')]"
  by (simp add: sample_accept_def key_value_pairs_def pair_of_def trim_def isWhiteSpace_def
        jsstr_def)

theorem acceptParams_tokenizer_witness:
  "acceptParams_iterations sample_parseFloat sample_accept (start_index sample_accept)
       (start_ret sample_accept) \<le> 20
   \<and> ret_value (acceptParams sample_parseFloat sample_accept) = jsstr ''text/html''
   \<and> ret_quality (acceptParams sample_parseFloat sample_accept) = 0
   \<and> ret_params (acceptParams sample_parseFloat sample_accept)
       = [jsstr ''charset'' \<mapsto> jsstr ''utf-8'']"
proof -
  have si: "start_index sample_accept = 10" and len: "length sample_accept = 30"
    by (simp_all add: sample_accept_def start_index_def indexOf_eq jsstr_def)
  have v: "trim (takeWhile (\<lambda>c. c \<noteq> semicolon) sample_accept) = jsstr ''text/html''"
    by (simp add: sample_accept_def trim_def isWhiteSpace_def jsstr_def)
  have q: "filter (\<lambda>kv. fst kv = jsstr ''q'')
             [(jsstr ''charset'', jsstr ''utf-8''), (jsstr ''q'', jsstr ''0'')]
           = [(jsstr ''q'', jsstr ''0'')]"
    and p: "filter (\<lambda>kv. fst kv \<noteq> jsstr ''q'' \<and> fst kv \<noteq> jsstr ''__proto__'')
             [(jsstr ''charset'', jsstr ''utf-8''), (jsstr ''q'', jsstr ''0'')]
           = [(jsstr ''charset'', jsstr ''utf-8'')]"
    by (simp_all add: jsstr_def)
  show ?thesis
    using acceptParams_tokenizer [of sample_parseFloat sample_accept]
    unfolding sample_pairs si len v q p
    by (simp add: sample_parseFloat_def)
qed

text \<open>
  C7, as stated, fails at \<^verbatim>\<open>'text/html;__proto__=x'\<close>: the pair with the key
  \<^verbatim>\<open>__proto__\<close> is a key=value pair other than \<^verbatim>\<open>q\<close>, and \<^verbatim>\<open>params\<close> does not hold it.
\<close>

theorem acceptParams_proto_counterexample:
  "(jsstr ''__proto__'', jsstr ''x'') \<in> set (key_value_pairs (jsstr ''text/html;__proto__=x''))
   \<and> jsstr ''__proto__'' \<noteq> jsstr ''q''
   \<and> ret_params (acceptParams sample_parseFloat (jsstr ''text/html;__proto__=x''))
        (jsstr ''__proto__'') = None"
proof -
  have p: "key_value_pairs (jsstr ''text/html;__proto__=x'') = [(jsstr ''__proto__'', jsstr ''x'')]"
    by (simp add: key_value_pairs_def pair_of_def trim_def isWhiteSpace_def jsstr_def)
  have n: "jsstr ''__proto__'' \<noteq> jsstr ''q''" by (simp add: jsstr_def)
  have "ret_params (acceptParams sample_parseFloat (jsstr ''text/html;__proto__=x'')) = Map.empty"
    using acceptParams_loop_pairs[of sample_parseFloat "jsstr ''text/html;__proto__=x''"
        "start_index (jsstr ''text/html;__proto__=x'')" "start_ret (jsstr ''text/html;__proto__=x'')"]
    unfolding acceptParams_def key_value_pairs_eq[symmetric] p
    using n by (simp add: collect_def set_property_def start_ret_def)
  then show ?thesis using p n by simp
qed

section \<open>The view: properties\<close>

subsection \<open>\<^verbatim>\<open>View.resolve\<close>\<close>

text \<open>
  A path is a regular file when its stat succeeds and reports a file.
\<close>

definition regular_file :: "(string \<Rightarrow> error + stats) \<Rightarrow> string \<Rightarrow> bool" where
  "regular_file statSync p = (case statSync p of Inl e \<Rightarrow> False | Inr st \<Rightarrow> isFile st)"

lemma View_resolve_first:
  "regular_file statSync (path_join P [dir, file]) \<Longrightarrow>
     View_resolve P statSync ext dir file log =
       (log @ [Stat (path_join P [dir, file])], Some (path_join P [dir, file]))"
  by (simp add: View_resolve_def tryStat_def stat_isFile_def regular_file_def Let_def
           split: sum.splits)

lemma View_resolve_second:
  "\<not> regular_file statSync (path_join P [dir, file]) \<Longrightarrow>
     View_resolve P statSync ext dir file log =
       (log @ [Stat (path_join P [dir, file]),
               Stat (path_join P [dir, path_basename_ext P file ext, ''index'' @ ext])],
        if regular_file statSync (path_join P [dir, path_basename_ext P file ext, ''index'' @ ext])
        then Some (path_join P [dir, path_basename_ext P file ext, ''index'' @ ext])
        else None)"
  by (simp add: View_resolve_def tryStat_def stat_isFile_def regular_file_def Let_def
           split: sum.splits)

text \<open>
  C2. \<^verbatim>\<open>View.resolve\<close> stats \<^verbatim>\<open>join(dir, file)\<close> first and returns it when it is a
  regular file; only otherwise it stats \<^verbatim>\<open>join(dir, basename(file, ext), 'index' + ext)\<close>
  and returns that when it is a regular file, and \<^verbatim>\<open>undefined\<close> when neither is. No
  other path is looked at.
\<close>

theorem View_resolve_two_candidates:
  "View_resolve P statSync ext dir file log =
     (let first = path_join P [dir, file];
          second = path_join P [dir, path_basename_ext P file ext, ''index'' @ ext]
      in if regular_file statSync first then (log @ [Stat first], Some first)
         else if regular_file statSync second then (log @ [Stat first, Stat second], Some second)
         else (log @ [Stat first, Stat second], None))"
proof (cases "regular_file statSync (path_join P [dir, file])")
  case True
  then show ?thesis by (simp add: View_resolve_first Let_def)
next
  case False
  then show ?thesis by (simp add: View_resolve_second Let_def)
qed

theorem View_resolve_two_candidates_witness:
  "View_resolve sample_path sample_statSync ''.html'' ''/views'' ''user.html'' []
     = ([Stat ''/views/user.html'', Stat ''/views/user/index.html''],
        Some ''/views/user/index.html'')
   \<and> View_resolve sample_path sample_statSync ''.html'' ''/views'' ''about.html'' []
     = ([Stat ''/views/about.html''], Some ''/views/about.html'')
   \<and> View_resolve sample_path sample_statSync ''.html'' ''/views'' ''none.html'' []
     = ([Stat ''/views/none.html'', Stat ''/views/none/index.html''], None)"
  using View_resolve_two_candidates [of sample_path sample_statSync "''.html''" "''/views''"
      "''user.html''" "[]"]
    View_resolve_two_candidates [of sample_path sample_statSync "''.html''" "''/views''"
      "''about.html''" "[]"]
    View_resolve_two_candidates [of sample_path sample_statSync "''.html''" "''/views''"
      "''none.html''" "[]"]
  by (simp add: sample_path_def sample_join_def sample_basename_ext_def sample_basename_def
        sample_statSync_def regular_file_def Let_def)

subsection \<open>\<^verbatim>\<open>View.lookup\<close>\<close>

text \<open>
  The resolution of a name under one root, and the stats it makes. \<^verbatim>\<open>path.join\<close> of
  Node never returns the empty string (it returns \<^verbatim>\<open>'.'\<close> instead), which is what
  \<open>join_never_empty\<close> says of the parameter.
\<close>

definition resolve_under ::
  "pathlib \<Rightarrow> (string \<Rightarrow> error + stats) \<Rightarrow> string \<Rightarrow> string \<Rightarrow> string
     \<Rightarrow> effect list \<times> string option" where
  "resolve_under P statSync ext name r =
     (let loc = path_resolve P [r, name]
      in View_resolve P statSync ext (path_dirname P loc) (path_basename P loc) [])"

definition stats_under ::
  "pathlib \<Rightarrow> (string \<Rightarrow> error + stats) \<Rightarrow> string \<Rightarrow> string \<Rightarrow> string list \<Rightarrow> effect list" where
  "stats_under P statSync ext name rs = concat (map (\<lambda>r. fst (resolve_under P statSync ext name r)) rs)"

definition join_never_empty :: "pathlib \<Rightarrow> bool" where
  "join_never_empty P = (\<forall>segs. path_join P segs \<noteq> [])"

lemma View_resolve_log:
  "View_resolve P statSync ext dir file log =
     (log @ fst (View_resolve P statSync ext dir file []),
      snd (View_resolve P statSync ext dir file []))"
  by (simp add: View_resolve_def tryStat_def Let_def)

lemma View_resolve_not_falsy:
  "join_never_empty P \<Longrightarrow> snd (View_resolve P statSync ext dir file log) = Some p
     \<Longrightarrow> \<not> falsy (Some p)"
  by (auto simp: View_resolve_def tryStat_def Let_def falsy_def join_never_empty_def
           split: if_splits)

lemma lookup_loop_found:
  "\<not> falsy path \<Longrightarrow> lookup_loop P statSync ext name rs log path = (log, path)"
  by (cases rs) simp_all

lemma lookup_loop_step:
  "lookup_loop P statSync ext name (r # rs) log None =
     lookup_loop P statSync ext name rs (log @ fst (resolve_under P statSync ext name r))
       (snd (resolve_under P statSync ext name r))"
proof -
  let ?loc = "path_resolve P [r, name]"
  have "View_resolve P statSync ext (path_dirname P ?loc) (path_basename P ?loc) log =
          (log @ fst (resolve_under P statSync ext name r),
           snd (resolve_under P statSync ext name r))"
    unfolding resolve_under_def Let_def by (rule View_resolve_log)
  then show ?thesis by (simp add: falsy_def Let_def)
qed

lemma lookup_loop_none:
  "list_all (\<lambda>r. snd (resolve_under P statSync ext name r) = None) rs \<Longrightarrow>
     lookup_loop P statSync ext name rs log None =
       (log @ stats_under P statSync ext name rs, None)"
proof (induction rs arbitrary: log)
  case Nil
  then show ?case by (simp add: stats_under_def)
next
  case (Cons r rs)
  then show ?case by (simp add: lookup_loop_step stats_under_def del: lookup_loop.simps(2))
qed

lemma lookup_loop_first:
  assumes "join_never_empty P"
    and "list_all (\<lambda>r. snd (resolve_under P statSync ext name r) = None) before"
    and "snd (resolve_under P statSync ext name r) = Some p"
  shows "lookup_loop P statSync ext name (before @ r # after) log None =
           (log @ stats_under P statSync ext name (before @ [r]), Some p)"
  using assms(2)
proof (induction before arbitrary: log)
  case Nil
  have "\<not> falsy (Some p)"
    using View_resolve_not_falsy[OF assms(1)] assms(3) unfolding resolve_under_def Let_def
    by blast
  then show ?case
    using assms(3)
    by (simp add: lookup_loop_step lookup_loop_found stats_under_def del: lookup_loop.simps(2))
next
  case (Cons b before)
  then show ?case by (simp add: lookup_loop_step stats_under_def del: lookup_loop.simps(2))
qed

text \<open>
  C3. \<^verbatim>\<open>View.lookup\<close> goes through the roots in order and returns the path resolved
  under the first root where the resolution succeeds; the roots after it are not
  looked at (no stat is made for them); when the resolution fails under every root the
  result is \<^verbatim>\<open>undefined\<close>. A single root is an array of one.
\<close>

theorem View_lookup_first_root:
  assumes "join_never_empty P"
  shows "(list_all (\<lambda>r. snd (resolve_under P statSync ext name r) = None) roots \<longrightarrow>
            View_lookup P statSync ext (ManyRoots roots) name log =
              (log @ stats_under P statSync ext name roots, None))
       \<and> (list_all (\<lambda>r. snd (resolve_under P statSync ext name r) = None) before
            \<and> snd (resolve_under P statSync ext name r) = Some p \<longrightarrow>
            View_lookup P statSync ext (ManyRoots (before @ r # after)) name log =
              (log @ stats_under P statSync ext name (before @ [r]), Some p))
       \<and> View_lookup P statSync ext (OneRoot r) name log =
           (log @ fst (resolve_under P statSync ext name r),
            snd (resolve_under P statSync ext name r))"
proof (intro conjI impI)
  assume "list_all (\<lambda>r. snd (resolve_under P statSync ext name r) = None) roots"
  then show "View_lookup P statSync ext (ManyRoots roots) name log =
               (log @ stats_under P statSync ext name roots, None)"
    by (simp add: View_lookup_def lookup_loop_none)
next
  assume "list_all (\<lambda>r. snd (resolve_under P statSync ext name r) = None) before
            \<and> snd (resolve_under P statSync ext name r) = Some p"
  then show "View_lookup P statSync ext (ManyRoots (before @ r # after)) name log =
               (log @ stats_under P statSync ext name (before @ [r]), Some p)"
    using lookup_loop_first[OF assms] by (simp add: View_lookup_def)
next
  show "View_lookup P statSync ext (OneRoot r) name log =
          (log @ fst (resolve_under P statSync ext name r),
           snd (resolve_under P statSync ext name r))"
    by (simp add: View_lookup_def lookup_loop_step del: lookup_loop.simps(2))
qed

lemma sample_join_never_empty: "join_never_empty sample_path"
  by (simp add: join_never_empty_def sample_path_def sample_join_def Let_def)

theorem View_lookup_first_root_witness:
  "join_never_empty sample_path
   \<and> View_lookup sample_path sample_statSync ''.html''
        (ManyRoots [''/other'', ''/shared'', ''/views'']) ''footer.html'' []
      = ([Stat ''/other/footer.html'', Stat ''/other/footer/index.html'',
          Stat ''/shared/footer.html''], Some ''/shared/footer.html'')
   \<and> View_lookup sample_path sample_statSync ''.html'' (ManyRoots [''/other'']) ''footer.html'' []
      = ([Stat ''/other/footer.html'', Stat ''/other/footer/index.html''], None)"
proof -
  have none: "list_all (\<lambda>r. snd (resolve_under sample_path sample_statSync ''.html'' ''footer.html'' r) = None) [''/other'']"
    by (simp add: resolve_under_def View_resolve_def tryStat_def stat_isFile_def sample_path_def sample_join_def
          sample_basename_ext_def sample_basename_def sample_dirname_def sample_statSync_def
          Let_def)
  have found: "snd (resolve_under sample_path sample_statSync ''.html'' ''footer.html'' ''/shared'')
                 = Some ''/shared/footer.html''"
    by (simp add: resolve_under_def View_resolve_def tryStat_def stat_isFile_def sample_path_def sample_join_def
          sample_basename_ext_def sample_basename_def sample_dirname_def sample_statSync_def
          Let_def)
  have logs: "stats_under sample_path sample_statSync ''.html'' ''footer.html'' [''/other'', ''/shared'']
      = [Stat ''/other/footer.html'', Stat ''/other/footer/index.html'', Stat ''/shared/footer.html'']"
    "stats_under sample_path sample_statSync ''.html'' ''footer.html'' [''/other'']
      = [Stat ''/other/footer.html'', Stat ''/other/footer/index.html'']"
    by (simp_all add: stats_under_def resolve_under_def View_resolve_def tryStat_def stat_isFile_def sample_path_def sample_join_def
          sample_basename_ext_def sample_basename_def sample_dirname_def sample_statSync_def
          Let_def)
  show ?thesis
    using View_lookup_first_root [OF sample_join_never_empty, of sample_statSync "''.html''"
        "''footer.html''" "[''/other'']" "[]" "[''/other'']" "''/shared''" "''/shared/footer.html''"
        "[''/views'']"]
      none found logs sample_join_never_empty
    by simp
qed

subsection \<open>The constructor\<close>

text \<open>
  The check of the constructor, the extension it settles on, and the modules required
  among the effects. \<^verbatim>\<open>path.extname\<close> of Node returns the empty string or a string that
  starts with a dot, which is what \<open>extname_dotted\<close> says of the parameter.
\<close>

definition no_extension_no_default :: "pathlib \<Rightarrow> string \<Rightarrow> 'e options \<Rightarrow> bool" where
  "no_extension_no_default P name opts = (path_extname P name = [] \<and> falsy (defaultEngine opts))"

definition resolved_ext :: "pathlib \<Rightarrow> string \<Rightarrow> 'e options \<Rightarrow> string" where
  "resolved_ext P name opts =
     (if path_extname P name = [] then default_ext (defaultEngine opts) else path_extname P name)"

fun required :: "effect list \<Rightarrow> string list" where
  "required [] = []"
| "required (Require m # es) = m # required es"
| "required (Stat p # es) = required es"

definition extname_dotted :: "pathlib \<Rightarrow> bool" where
  "extname_dotted P = (\<forall>name. path_extname P name = [] \<or> hd (path_extname P name) = CHR ''.'')"

definition loads_engine ::
  "pathlib \<Rightarrow> (string \<Rightarrow> error + 'e module) \<Rightarrow> string \<Rightarrow> 'e options \<Rightarrow> 'e \<Rightarrow> bool" where
  "loads_engine P require name opts fn =
     (\<not> no_extension_no_default P name opts
      \<and> engines opts (resolved_ext P name opts) = None
      \<and> (case require (drop 1 (resolved_ext P name opts)) of
            Inl err \<Rightarrow> False
          | Inr m \<Rightarrow> express_export m = Function fn))"

lemma required_append: "required (xs @ ys) = required xs @ required ys"
  by (induction xs rule: required.induct) simp_all

lemma required_View_resolve:
  "required (fst (View_resolve P statSync ext dir file log)) = required log"
  by (simp add: View_resolve_def tryStat_def Let_def required_append)

lemma required_lookup_loop:
  "required (fst (lookup_loop P statSync ext name rs log path)) = required log"
proof (induction rs arbitrary: log path)
  case Nil
  then show ?case by simp
next
  case (Cons r rs)
  show ?case
  proof (cases "falsy path")
    case False
    then show ?thesis by simp
  next
    case True
    obtain log' path' where
      r: "View_resolve P statSync ext (path_dirname P (path_resolve P [r, name]))
            (path_basename P (path_resolve P [r, name])) log = (log', path')"
      by (cases "View_resolve P statSync ext (path_dirname P (path_resolve P [r, name]))
            (path_basename P (path_resolve P [r, name])) log") auto
    have "required log' = required log"
      using required_View_resolve[of P statSync ext _ _ log] r by (metis fst_conv)
    then show ?thesis using True r Cons.IH[of log' path'] by (simp add: Let_def)
  qed
qed

lemma required_View_lookup:
  "required (fst (View_lookup P statSync ext rt name log)) = required log"
  by (simp add: View_lookup_def required_lookup_loop)

text \<open>The constructor, by cases of the engine block.\<close>

lemma View_new_invalid:
  "no_extension_no_default P name opts \<Longrightarrow>
     View_new P require statSync name opts =
       (opts, [], Inl (Error ''No default engine was specified and no extension was provided.''))"
  by (simp add: View_new_def no_extension_no_default_def Let_def)

lemma View_new_cached:
  assumes "\<not> no_extension_no_default P name opts"
    and "engines opts (resolved_ext P name opts) = Some e"
  shows "\<exists>log v. View_new P require statSync name opts = (opts, log, Inr v)
           \<and> this_engine v = Some e \<and> this_ext v = resolved_ext P name opts
           \<and> required log = []"
proof -
  let ?ext = "resolved_ext P name opts"
  let ?file = "if path_extname P name = [] then name @ ?ext else name"
  obtain log path where l: "View_lookup P statSync ?ext (root opts) ?file [] = (log, path)"
    by (cases "View_lookup P statSync ?ext (root opts) ?file []") auto
  have "required log = []"
    using required_View_lookup[of P statSync ?ext "root opts" ?file "[]"] l by simp
  moreover have "load_engine require ?ext opts = (opts, [], None)"
    using assms(2) by (simp add: load_engine_def)
  ultimately show ?thesis
    using assms l
    by (auto simp: View_new_def no_extension_no_default_def resolved_ext_def Let_def)
qed

lemma View_new_require_throws:
  assumes "\<not> no_extension_no_default P name opts"
    and "engines opts (resolved_ext P name opts) = None"
    and "require (drop 1 (resolved_ext P name opts)) = Inl err"
  shows "View_new P require statSync name opts =
           (opts, [Require (drop 1 (resolved_ext P name opts))], Inl err)"
proof -
  have "load_engine require (resolved_ext P name opts) opts =
          (opts, [Require (drop 1 (resolved_ext P name opts))], Some err)"
    using assms(2,3) by (simp add: load_engine_def Let_def)
  then show ?thesis
    using assms(1)
    by (auto simp: View_new_def no_extension_no_default_def resolved_ext_def Let_def)
qed

lemma View_new_not_engine:
  assumes "\<not> no_extension_no_default P name opts"
    and "engines opts (resolved_ext P name opts) = None"
    and "require (drop 1 (resolved_ext P name opts)) = Inr m"
    and "express_export m = NotAFunction"
  shows "View_new P require statSync name opts =
           (opts, [Require (drop 1 (resolved_ext P name opts))],
            Inl (Error (''Module '' @ [CHR 0x22] @ drop 1 (resolved_ext P name opts) @ [CHR 0x22]
                        @ '' does not provide a view engine.'')))"
proof -
  have "load_engine require (resolved_ext P name opts) opts =
          (opts, [Require (drop 1 (resolved_ext P name opts))],
           Some (Error (''Module '' @ [CHR 0x22] @ drop 1 (resolved_ext P name opts) @ [CHR 0x22]
                        @ '' does not provide a view engine.'')))"
    using assms(2,3,4) by (simp add: load_engine_def Let_def)
  then show ?thesis
    using assms(1)
    by (auto simp: View_new_def no_extension_no_default_def resolved_ext_def Let_def)
qed

lemma View_new_loaded:
  assumes "\<not> no_extension_no_default P name opts"
    and "engines opts (resolved_ext P name opts) = None"
    and "require (drop 1 (resolved_ext P name opts)) = Inr m"
    and "express_export m = Function fn"
  shows "\<exists>log v. View_new P require statSync name opts =
             (opts\<lparr>engines := (engines opts)(resolved_ext P name opts \<mapsto> fn)\<rparr>, log, Inr v)
           \<and> this_engine v = Some fn \<and> this_ext v = resolved_ext P name opts
           \<and> required log = [drop 1 (resolved_ext P name opts)]"
proof -
  let ?ext = "resolved_ext P name opts"
  let ?opts' = "opts\<lparr>engines := (engines opts)(?ext \<mapsto> fn)\<rparr>"
  let ?file = "if path_extname P name = [] then name @ ?ext else name"
  obtain log path where
    l: "View_lookup P statSync ?ext (root opts) ?file [Require (drop 1 ?ext)] = (log, path)"
    by (cases "View_lookup P statSync ?ext (root opts) ?file [Require (drop 1 ?ext)]") auto
  have "required log = [drop 1 ?ext]"
    using required_View_lookup[of P statSync ?ext "root opts" ?file "[Require (drop 1 ?ext)]"] l
    by simp
  moreover have "load_engine require ?ext opts = (?opts', [Require (drop 1 ?ext)], None)"
    using assms(2,3,4) by (simp add: load_engine_def Let_def)
  ultimately show ?thesis
    using assms(1) l
    by (auto simp: View_new_def no_extension_no_default_def resolved_ext_def Let_def)
qed

lemma resolved_ext_dotted:
  assumes "extname_dotted P" "\<not> no_extension_no_default P name opts"
  shows "resolved_ext P name opts = CHR ''.'' # drop 1 (resolved_ext P name opts)"
proof (cases "path_extname P name = []")
  case True
  with assms(2) obtain c cs where "defaultEngine opts = Some (c # cs)"
    by (cases "defaultEngine opts"; cases "the (defaultEngine opts)")
       (auto simp: no_extension_no_default_def falsy_def)
  then show ?thesis using True by (simp add: resolved_ext_def default_ext_def)
next
  case False
  moreover from assms(1) False have "hd (path_extname P name) = CHR ''.''"
    by (auto simp: extname_dotted_def)
  ultimately show ?thesis
    by (cases "path_extname P name") (simp_all add: resolved_ext_def)
qed

lemma View_new_not_loaded:
  assumes "\<forall>fn. \<not> loads_engine P require name opts fn"
  shows "fst (View_new P require statSync name opts) = opts"
proof (cases "no_extension_no_default P name opts")
  case True
  then show ?thesis by (simp add: View_new_invalid)
next
  case False
  show ?thesis
  proof (cases "engines opts (resolved_ext P name opts)")
    case (Some e)
    from View_new_cached[OF False Some, of require statSync] show ?thesis by auto
  next
    case None
    show ?thesis
    proof (cases "require (drop 1 (resolved_ext P name opts))")
      case (Inl err)
      from View_new_require_throws[where require=require and statSync=statSync, OF False None Inl] show ?thesis by simp
    next
      case (Inr m)
      show ?thesis
      proof (cases "express_export m")
        case NotAFunction
        from View_new_not_engine[where require=require and statSync=statSync, OF False None Inr NotAFunction] show ?thesis
          by simp
      next
        case (Function fn)
        then have "loads_engine P require name opts fn"
          using False None Inr by (simp add: loads_engine_def)
        with assms show ?thesis by blast
      qed
    qed
  qed
qed

lemma View_new_loads:
  assumes "loads_engine P require name opts fn"
  shows "fst (View_new P require statSync name opts) =
           opts\<lparr>engines := (engines opts)(resolved_ext P name opts \<mapsto> fn)\<rparr>"
proof -
  from assms obtain m where
    "\<not> no_extension_no_default P name opts" "engines opts (resolved_ext P name opts) = None"
    "require (drop 1 (resolved_ext P name opts)) = Inr m" "express_export m = Function fn"
    by (auto simp: loads_engine_def split: sum.splits)
  from View_new_loaded[where require=require and statSync=statSync, OF this] show ?thesis by auto
qed

lemma sample_about:
  "\<not> no_extension_no_default sample_path ''about'' sample_options"
  "resolved_ext sample_path ''about'' sample_options = ''.html''"
  "engines sample_options ''.html'' = None"
  "sample_require ''html'' = Inr \<lparr>express_export = Function Html_engine\<rparr>"
  by (simp_all add: no_extension_no_default_def resolved_ext_def default_ext_def falsy_def
        sample_defs)

lemma sample_page:
  "\<not> no_extension_no_default sample_path ''page.ejs'' sample_options"
  "resolved_ext sample_path ''page.ejs'' sample_options = ''.ejs''"
  "engines sample_options ''.ejs'' = Some Cached_engine"
  by (simp_all add: no_extension_no_default_def resolved_ext_def default_ext_def falsy_def
        sample_defs)

lemma sample_extname_dotted: "extname_dotted sample_path"
  by (simp add: extname_dotted_def sample_path_def sample_extname_def)

lemma sample_loads:
  "loads_engine sample_path sample_require ''about'' sample_options Html_engine"
  by (simp add: loads_engine_def sample_about)

lemma sample_second:
  "\<not> no_extension_no_default sample_path ''user.html''
       (sample_options\<lparr>engines := (engines sample_options)(''.html'' \<mapsto> Html_engine)\<rparr>)"
  "resolved_ext sample_path ''user.html''
       (sample_options\<lparr>engines := (engines sample_options)(''.html'' \<mapsto> Html_engine)\<rparr>)
     = ''.html''"
  by (simp_all add: no_extension_no_default_def resolved_ext_def default_ext_def falsy_def
        sample_defs)

text \<open>
  C4. Past its check, the constructor binds the engine by the extension: an entry of
  \<^verbatim>\<open>options.engines\<close> for the extension is used and no module is required; when there
  is none, the module named by the extension without its dot is required, and nothing
  else; if its \<^verbatim>\<open>__express\<close> is not a function the constructor throws the error
  \<^verbatim>\<open>Module "..." does not provide a view engine.\<close>, otherwise that function is the
  engine of the view.
\<close>

theorem View_new_binds_engine:
  assumes "\<not> no_extension_no_default P name opts"
  shows "(\<forall>e. engines opts (resolved_ext P name opts) = Some e \<longrightarrow>
            (\<exists>log v. View_new P require statSync name opts = (opts, log, Inr v)
               \<and> this_engine v = Some e \<and> required log = []))
       \<and> (engines opts (resolved_ext P name opts) = None \<longrightarrow>
            required (fst (snd (View_new P require statSync name opts)))
              = [drop 1 (resolved_ext P name opts)])
       \<and> (\<forall>m. engines opts (resolved_ext P name opts) = None
               \<and> require (drop 1 (resolved_ext P name opts)) = Inr m
               \<and> express_export m = NotAFunction \<longrightarrow>
            snd (snd (View_new P require statSync name opts)) =
              Inl (Error (''Module '' @ [CHR 0x22] @ drop 1 (resolved_ext P name opts)
                          @ [CHR 0x22] @ '' does not provide a view engine.'')))
       \<and> (\<forall>m fn. engines opts (resolved_ext P name opts) = None
               \<and> require (drop 1 (resolved_ext P name opts)) = Inr m
               \<and> express_export m = Function fn \<longrightarrow>
            (\<exists>opts' log v. View_new P require statSync name opts = (opts', log, Inr v)
               \<and> this_engine v = Some fn))
       \<and> (extname_dotted P \<longrightarrow>
            resolved_ext P name opts = CHR ''.'' # drop 1 (resolved_ext P name opts))"
proof (intro conjI allI impI)
  fix e
  assume "engines opts (resolved_ext P name opts) = Some e"
  from View_new_cached[OF assms this, of require statSync]
  show "\<exists>log v. View_new P require statSync name opts = (opts, log, Inr v)
          \<and> this_engine v = Some e \<and> required log = []"
    by blast
next
  assume none: "engines opts (resolved_ext P name opts) = None"
  show "required (fst (snd (View_new P require statSync name opts)))
          = [drop 1 (resolved_ext P name opts)]"
  proof (cases "require (drop 1 (resolved_ext P name opts))")
    case (Inl err)
    from View_new_require_throws[where require=require and statSync=statSync, OF assms none Inl] show ?thesis by simp
  next
    case (Inr m)
    show ?thesis
    proof (cases "express_export m")
      case NotAFunction
      from View_new_not_engine[where require=require and statSync=statSync, OF assms none Inr NotAFunction] show ?thesis by simp
    next
      case (Function fn)
      from View_new_loaded[where require=require and statSync=statSync, OF assms none Inr Function] show ?thesis by auto
    qed
  qed
next
  fix m
  assume "engines opts (resolved_ext P name opts) = None
            \<and> require (drop 1 (resolved_ext P name opts)) = Inr m
            \<and> express_export m = NotAFunction"
  then show "snd (snd (View_new P require statSync name opts)) =
               Inl (Error (''Module '' @ [CHR 0x22] @ drop 1 (resolved_ext P name opts)
                           @ [CHR 0x22] @ '' does not provide a view engine.''))"
    using View_new_not_engine[where require=require and statSync=statSync and m=m, OF assms] by simp
next
  fix m fn
  assume "engines opts (resolved_ext P name opts) = None
            \<and> require (drop 1 (resolved_ext P name opts)) = Inr m
            \<and> express_export m = Function fn"
  then show "\<exists>opts' log v. View_new P require statSync name opts = (opts', log, Inr v)
               \<and> this_engine v = Some fn"
    using View_new_loaded[where require=require and statSync=statSync and m=m and fn=fn, OF assms] by blast
next
  assume "extname_dotted P"
  then show "resolved_ext P name opts = CHR ''.'' # drop 1 (resolved_ext P name opts)"
    using assms by (rule resolved_ext_dotted)
qed

theorem View_new_binds_engine_witness:
  "\<not> no_extension_no_default sample_path ''about'' sample_options
   \<and> resolved_ext sample_path ''about'' sample_options = ''.html''
   \<and> required (fst (snd (View_new sample_path sample_require sample_statSync ''about''
                             sample_options))) = [''html'']
   \<and> (\<exists>opts' log v.
         View_new sample_path sample_require sample_statSync ''about'' sample_options
           = (opts', log, Inr v)
         \<and> this_engine v = Some Html_engine)
   \<and> (\<exists>log v.
         View_new sample_path sample_require sample_statSync ''page.ejs'' sample_options
           = (sample_options, log, Inr v)
         \<and> this_engine v = Some Cached_engine \<and> required log = [])"
  using View_new_binds_engine [OF sample_about(1), where require = sample_require
      and statSync = sample_statSync]
    View_new_binds_engine [OF sample_page(1), where require = sample_require
      and statSync = sample_statSync]
    sample_about sample_page
  by simp









definition given_of :: "'e options \<Rightarrow> 'e given_options" where
  "given_of opts =
     \<lparr>given_defaultEngine = defaultEngine opts, given_engines = Some (engines opts),
      given_root = Some (root opts)\<rparr>"







text \<open>
  On options of the parameter's type the constructor is \<open>View_new\<close>.
\<close>

lemma load_engine_into_typed:
  "load_engine require ext opts =
     (case load_engine_into require ext (engines opts) of
        (es', log, err) \<Rightarrow> (opts\<lparr>engines := es'\<rparr>, log, err))"
  by (simp add: load_engine_def load_engine_into_def Let_def
           split: option.splits sum.splits export.splits)

lemma View_constructor_typed:
  "View_constructor P ru require statSync name (Some (given_of opts)) =
     (case View_new P require statSync name opts of
        (opts', log, r) \<Rightarrow> (Some (given_of opts'), log, r))"
  by (simp add: View_constructor_def View_new_def options_or_empty_def given_of_def Let_def
        load_engine_def load_engine_into_def
        split: option.splits sum.splits export.splits prod.splits)





text \<open>
  C10. When the constructor loads the engine from a module, it stores it in the
  caller's \<^verbatim>\<open>options.engines\<close> under the extension, and that is the only change to the
  options; otherwise the options are left as they were. A view constructed later from
  the same options with the same extension gets that engine and requires no module.
\<close>

theorem View_new_mutates_engines_only:
  "(loads_engine P require name opts fn \<longrightarrow>
      fst (View_new P require statSync name opts) =
        opts\<lparr>engines := (engines opts)(resolved_ext P name opts \<mapsto> fn)\<rparr>)
   \<and> ((\<forall>f. \<not> loads_engine P require name opts f) \<longrightarrow>
        fst (View_new P require statSync name opts) = opts)
   \<and> defaultEngine (fst (View_new P require statSync name opts)) = defaultEngine opts
   \<and> root (fst (View_new P require statSync name opts)) = root opts
   \<and> (loads_engine P require name opts fn
        \<and> \<not> no_extension_no_default P name2 (fst (View_new P require statSync name opts))
        \<and> resolved_ext P name2 (fst (View_new P require statSync name opts))
            = resolved_ext P name opts \<longrightarrow>
        (\<exists>log v. View_new P require2 statSync2 name2 (fst (View_new P require statSync name opts))
                   = (fst (View_new P require statSync name opts), log, Inr v)
           \<and> this_engine v = Some fn \<and> required log = []))"
proof (intro conjI impI)
  assume "loads_engine P require name opts fn"
  then show "fst (View_new P require statSync name opts) =
               opts\<lparr>engines := (engines opts)(resolved_ext P name opts \<mapsto> fn)\<rparr>"
    by (rule View_new_loads)
next
  assume "\<forall>f. \<not> loads_engine P require name opts f"
  then show "fst (View_new P require statSync name opts) = opts"
    by (rule View_new_not_loaded)
next
  show "defaultEngine (fst (View_new P require statSync name opts)) = defaultEngine opts"
  proof (cases "\<exists>f. loads_engine P require name opts f")
    case True
    then obtain f where "loads_engine P require name opts f" by blast
    from View_new_loads[OF this, of statSync] show ?thesis by simp
  next
    case False
    then show ?thesis by (simp add: View_new_not_loaded)
  qed
next
  show "root (fst (View_new P require statSync name opts)) = root opts"
  proof (cases "\<exists>f. loads_engine P require name opts f")
    case True
    then obtain f where "loads_engine P require name opts f" by blast
    from View_new_loads[OF this, of statSync] show ?thesis by simp
  next
    case False
    then show ?thesis by (simp add: View_new_not_loaded)
  qed
next
  let ?opts' = "fst (View_new P require statSync name opts)"
  assume a: "loads_engine P require name opts fn
        \<and> \<not> no_extension_no_default P name2 ?opts'
        \<and> resolved_ext P name2 ?opts' = resolved_ext P name opts"
  then have "loads_engine P require name opts fn" by simp
  then have o: "?opts' = opts\<lparr>engines := (engines opts)(resolved_ext P name opts \<mapsto> fn)\<rparr>"
    by (rule View_new_loads)
  have "engines ?opts' (resolved_ext P name2 ?opts') = Some fn"
    using a by (simp add: o)
  from View_new_cached[where require=require2 and statSync=statSync2, OF _ this] a
  show "\<exists>log v. View_new P require2 statSync2 name2 ?opts' = (?opts', log, Inr v)
          \<and> this_engine v = Some fn \<and> required log = []"
    by blast
qed

theorem View_new_mutates_engines_only_witness:
  "loads_engine sample_path sample_require ''about'' sample_options Html_engine
   \<and> fst (View_new sample_path sample_require sample_statSync ''about'' sample_options)
       = sample_options\<lparr>engines := (engines sample_options)(''.html'' \<mapsto> Html_engine)\<rparr>
   \<and> (\<exists>log v.
         View_new sample_path sample_require sample_statSync ''user.html''
           (sample_options\<lparr>engines := (engines sample_options)(''.html'' \<mapsto> Html_engine)\<rparr>)
         = (sample_options\<lparr>engines := (engines sample_options)(''.html'' \<mapsto> Html_engine)\<rparr>,
            log, Inr v)
         \<and> this_engine v = Some Html_engine \<and> required log = [])"
proof -
  note t = View_new_mutates_engines_only [of sample_path sample_require "''about''"
      sample_options Html_engine sample_statSync "''user.html''" sample_require sample_statSync]
  have o: "fst (View_new sample_path sample_require sample_statSync ''about'' sample_options)
       = sample_options\<lparr>engines := (engines sample_options)(''.html'' \<mapsto> Html_engine)\<rparr>"
    using t sample_loads sample_about(2) by simp
  show ?thesis
    using t sample_loads sample_second sample_about(2) unfolding o by simp
qed

subsection \<open>\<^verbatim>\<open>View.render\<close>\<close>

lemma copy_loop_correct:
  "length args = length arguments \<Longrightarrow> take i args = take i arguments
     \<Longrightarrow> copy_loop arguments i args = arguments"
proof (induction arguments i args rule: copy_loop.induct)
  case (1 arguments i args)
  show ?case
  proof (cases "i < length arguments")
    case True
    have "take (i + 1) (args[i := arguments ! i]) = take (i + 1) arguments"
      using True 1(2,3) by (simp add: take_Suc_conv_app_nth)
    then have "copy_loop arguments (i + 1) (args[i := arguments ! i]) = arguments"
      using 1(1)[OF True] 1(2) by simp
    then show ?thesis using True by (subst copy_loop.simps) simp
  next
    case False
    then have "args = arguments" using 1(2,3) by simp
    then show ?thesis using False by (subst copy_loop.simps) simp
  qed
qed

lemma copy_arguments_eq: "copy_arguments undef arguments = arguments"
  using copy_loop_correct[of "replicate (length arguments) undef" arguments 0]
  by (simp add: copy_arguments_def)

lemma onRender_deferred:
  "sync st \<Longrightarrow> onRender undef st arguments = st\<lparr>nextTicks := nextTicks st @ [arguments]\<rparr>"
  by (simp add: onRender_def copy_arguments_eq)

lemma onRender_direct:
  "\<not> sync st \<Longrightarrow>
     onRender undef st arguments = st\<lparr>callback_calls := callback_calls st @ [arguments]\<rparr>"
  by (simp add: onRender_def)

lemma foldl_onRender_deferred:
  "sync st \<Longrightarrow> foldl (onRender undef) st calls = st\<lparr>nextTicks := nextTicks st @ calls\<rparr>"
proof (induction calls arbitrary: st)
  case Nil
  then show ?case by simp
next
  case (Cons c calls)
  then show ?case by (simp add: onRender_deferred)
qed

lemma View_render_state:
  "this_engine v = Some engine \<Longrightarrow>
     fst (View_render undef v options) =
       \<lparr>sync = (thrown (engine (this_path v) options) \<noteq> None),
        nextTicks = sync_calls (engine (this_path v) options), callback_calls = []\<rparr>"
  by (simp add: View_render_def Let_def foldl_onRender_deferred split: option.splits)

text \<open>
  C1. \<^verbatim>\<open>View.render\<close> makes no call of the user's callback before it returns,
  whatever the engine does. Each call the engine makes of its callback before it
  returns is handed to \<^verbatim>\<open>process.nextTick\<close> with a copy of its arguments, and running
  the queue calls the user's callback with exactly those arguments, in order. Once the
  engine has returned, \<^verbatim>\<open>sync\<close> is false, and from then on a call of the engine's
  callback calls the user's callback directly with the same arguments.
\<close>

theorem View_render_never_synchronous:
  "callback_calls (fst (View_render undef v options)) = []
   \<and> (this_engine v = Some engine \<longrightarrow>
        nextTicks (fst (View_render undef v options)) = sync_calls (engine (this_path v) options)
        \<and> callback_calls (run_nextTicks (fst (View_render undef v options)))
            = sync_calls (engine (this_path v) options)
        \<and> (thrown (engine (this_path v) options) = None \<longrightarrow>
             \<not> sync (fst (View_render undef v options))
             \<and> \<not> sync (run_nextTicks (fst (View_render undef v options)))))
   \<and> (\<not> sync st \<longrightarrow>
        onRender undef st arguments = st\<lparr>callback_calls := callback_calls st @ [arguments]\<rparr>)"
proof (intro conjI impI)
  show "callback_calls (fst (View_render undef v options)) = []"
  proof (cases "this_engine v")
    case None
    then show ?thesis by (simp add: View_render_def)
  next
    case (Some engine)
    then show ?thesis by (simp add: View_render_state)
  qed
next
  assume e: "this_engine v = Some engine"
  show "nextTicks (fst (View_render undef v options)) = sync_calls (engine (this_path v) options)"
    by (simp add: View_render_state[OF e])
  show "callback_calls (run_nextTicks (fst (View_render undef v options)))
          = sync_calls (engine (this_path v) options)"
    by (simp add: View_render_state[OF e] run_nextTicks_def)
  assume t: "thrown (engine (this_path v) options) = None"
  show "\<not> sync (fst (View_render undef v options))"
    by (simp add: View_render_state[OF e] t)
  show "\<not> sync (run_nextTicks (fst (View_render undef v options)))"
    by (simp add: View_render_state[OF e] t run_nextTicks_def)
next
  assume "\<not> sync st"
  then show "onRender undef st arguments = st\<lparr>callback_calls := callback_calls st @ [arguments]\<rparr>"
    by (rule onRender_direct)
qed

theorem View_render_never_synchronous_witness:
  "callback_calls (fst (View_render ''undefined'' sample_view ())) = []
   \<and> nextTicks (fst (View_render ''undefined'' sample_view ())) = [[''null'', ''<h1>about</h1>'']]
   \<and> callback_calls (run_nextTicks (fst (View_render ''undefined'' sample_view ())))
       = [[''null'', ''<h1>about</h1>'']]
   \<and> \<not> sync (fst (View_render ''undefined'' sample_view ()))
   \<and> onRender ''undefined'' (run_nextTicks (fst (View_render ''undefined'' sample_view ())))
        [''null'', ''late'']
       = \<lparr>sync = False, nextTicks = [],
          callback_calls = [[''null'', ''<h1>about</h1>''], [''null'', ''late'']]\<rparr>"
proof -
  have e: "this_engine sample_view = Some sample_sync_engine"
    and r: "sample_sync_engine (this_path sample_view) ()
              = \<lparr>sync_calls = [[''null'', ''<h1>about</h1>'']], thrown = None\<rparr>"
    by (simp_all add: sample_view_def sample_sync_engine_def)
  note t = View_render_never_synchronous [of "''undefined''" sample_view "()" sample_sync_engine
      "run_nextTicks (fst (View_render ''undefined'' sample_view ()))" "[''null'', ''late'']"]
  have s: "fst (View_render ''undefined'' sample_view ())
             = \<lparr>sync = False, nextTicks = [[''null'', ''<h1>about</h1>'']], callback_calls = []\<rparr>"
    using t e r by (cases "fst (View_render ''undefined'' sample_view ())") simp
  show ?thesis using t e r unfolding s by (simp add: run_nextTicks_def)
qed

end
